theory Spec2Isabelle
  imports Main "HOL-Library.Word"
begin

unbundle bit_operations_syntax

section \<open>Machine types and configuration constants\<close>

type_synonym u8 = "8 word"
type_synonym u16 = "16 word"
type_synonym u32 = "32 word"

text \<open>rpc_config.h\<close>

definition MIN_FUNC_NAME_LEN :: nat where "MIN_FUNC_NAME_LEN = 1"
definition MAX_FUNC_NAME_LEN :: nat where "MAX_FUNC_NAME_LEN = 32"
definition MAX_FUNC_ARGS_RESP_SIZE :: nat where "MAX_FUNC_ARGS_RESP_SIZE = 64"
definition NUM_REG_FUNC :: nat where "NUM_REG_FUNC = 16"
definition REQ_TABLE_SIZE :: nat where "REQ_TABLE_SIZE = 8"
definition Q_LINK_TO_TRANS_DEPTH :: nat where "Q_LINK_TO_TRANS_DEPTH = 16"
definition Q_TRANS_TO_LINK_DEPTH :: nat where "Q_TRANS_TO_LINK_DEPTH = 16"
definition Q_RPC_REQUEST_DEPTH :: nat where "Q_RPC_REQUEST_DEPTH = 16"
definition REQ_TIMEOUT_MS_DEFAULT :: u32 where "REQ_TIMEOUT_MS_DEFAULT = 200"

text \<open>rpc_osal.h\<close>

definition OS_WAIT_FOREVER :: u32 where "OS_WAIT_FOREVER = 0xFFFFFFFF"

text \<open>rpc_errors.h\<close>

definition RPC_SUCCESS :: int where "RPC_SUCCESS = 0"
definition RPC_ERROR :: int where "RPC_ERROR = - 1"
definition RPC_ERROR_OVERFLOW :: int where "RPC_ERROR_OVERFLOW = - 2"
definition RPC_ERROR_TIMEOUT :: int where "RPC_ERROR_TIMEOUT = - 3"
definition RPC_ERROR_INVALID_ARGS :: int where "RPC_ERROR_INVALID_ARGS = - 4"

text \<open>rpc_link.h: sentinels and frame sizes\<close>

definition SOF :: u8 where "SOF = 0xFA"
definition SOD :: u8 where "SOD = 0xFB"
definition EOF_byte :: u8 where "EOF_byte = 0xFE"  \<comment> \<open>the macro EOF_\<close>

definition HEADER_SIZE :: nat where "HEADER_SIZE = 4"
definition SOD_SIZE :: nat where "SOD_SIZE = 1"
definition CRC_PKT_SIZE :: nat where "CRC_PKT_SIZE = 1"
definition EOF_SIZE :: nat where "EOF_SIZE = 1"
definition TYPE_MSG_SIZE :: nat where "TYPE_MSG_SIZE = 1"
definition SEQ_MSG_SIZE :: nat where "SEQ_MSG_SIZE = 1"
definition TERM_SIZE :: nat where "TERM_SIZE = 1"

definition MIN_PAYLOAD_SIZE :: nat where
  "MIN_PAYLOAD_SIZE = TYPE_MSG_SIZE + SEQ_MSG_SIZE + MIN_FUNC_NAME_LEN + TERM_SIZE"
definition MAX_PAYLOAD_SIZE :: nat where
  "MAX_PAYLOAD_SIZE =
     TYPE_MSG_SIZE + SEQ_MSG_SIZE + MAX_FUNC_NAME_LEN + TERM_SIZE + MAX_FUNC_ARGS_RESP_SIZE"
definition MAX_PKT_LEN :: nat where
  "MAX_PKT_LEN = SOD_SIZE + MAX_PAYLOAD_SIZE + CRC_PKT_SIZE + EOF_SIZE"
definition MIN_PKT_LEN :: nat where
  "MIN_PKT_LEN = SOD_SIZE + MIN_PAYLOAD_SIZE + CRC_PKT_SIZE + EOF_SIZE"

text \<open>rpc_transport.h: message types\<close>

definition MSG_REQ :: u8 where "MSG_REQ = 0x0B"
definition MSG_STREAM :: u8 where "MSG_STREAM = 0x0C"
definition MSG_RESP :: u8 where "MSG_RESP = 0x16"
definition MSG_ERR :: u8 where "MSG_ERR = 0x21"

section \<open>C library helpers\<close>

text \<open>
  A C string is modelled by the bytes found at its address; the string ends at the first
  NUL byte, or at the end of the list (where the terminator then sits).
\<close>

definition strlen :: "u8 list \<Rightarrow> nat" where
  "strlen s = length (takeWhile (\<lambda>c. c \<noteq> 0) s)"

text \<open>The characters of a C string, without the terminator.\<close>

definition cstr :: "u8 list \<Rightarrow> u8 list" where
  "cstr s = takeWhile (\<lambda>c. c \<noteq> 0) s"

text \<open>\<open>memchr\<close> over a byte range: the offset of the first occurrence, if any.\<close>

definition memchr :: "u8 list \<Rightarrow> u8 \<Rightarrow> nat option" where
  "memchr xs c = (if c \<in> set xs then Some (length (takeWhile (\<lambda>x. x \<noteq> c) xs)) else None)"

text \<open>\<open>memcpy(dst + off, src, n)\<close> on a destination buffer held as a list.\<close>

definition memcpy_at :: "u8 list \<Rightarrow> nat \<Rightarrow> u8 list \<Rightarrow> nat \<Rightarrow> u8 list" where
  "memcpy_at dst off src n = take off dst @ take n src @ drop (off + n) dst"

section \<open>Transport codec (rpc_transport.c)\<close>

definition valid_msg_type :: "u8 \<Rightarrow> bool" where
  "valid_msg_type t \<longleftrightarrow> \<not> (t \<noteq> MSG_REQ \<and> t \<noteq> MSG_RESP \<and> t \<noteq> MSG_ERR \<and> t \<noteq> MSG_STREAM)"

text \<open>
  \<open>rpc_trans_build_msg\<close>. Pointers are options (\<open>None\<close> is NULL). The result is the returned
  size together with the output buffer after the call; size 0 reports an error.
\<close>

definition rpc_trans_build_msg ::
  "u8 \<Rightarrow> u8 \<Rightarrow> u8 list option \<Rightarrow> u8 list option \<Rightarrow> u16 \<Rightarrow> u8 list option \<Rightarrow> nat
     \<Rightarrow> nat \<times> u8 list option" where
  "rpc_trans_build_msg type seq name args alen out olen =
    (case (out, name) of
       (Some buf, Some nm) \<Rightarrow>
         if \<not> valid_msg_type type then (0, out)
         else
           let nlen = strlen nm in
           if nlen < MIN_FUNC_NAME_LEN \<or> nlen > MAX_FUNC_NAME_LEN then (0, out)
           else if unat alen > MAX_FUNC_ARGS_RESP_SIZE then (0, out)
           else
             let need = TYPE_MSG_SIZE + SEQ_MSG_SIZE + nlen + TERM_SIZE + unat alen in
             if need < MIN_PAYLOAD_SIZE \<or> need > MAX_PAYLOAD_SIZE then (0, out)
             else if need > olen then (0, out)
             else
               let b1 = buf[0 := type];
                   b2 = b1[1 := seq];
                   b3 = memcpy_at b2 2 nm nlen;
                   pos = 2 + nlen;
                   b4 = b3[pos := 0];
                   pos = pos + 1
               in (case args of
                     Some a \<Rightarrow>
                       if alen \<noteq> 0 then (pos + unat alen, Some (memcpy_at b4 pos a (unat alen)))
                       else (pos, Some b4)
                   | None \<Rightarrow> (pos, Some b4))
     | _ \<Rightarrow> (0, out))"

text \<open>
  \<open>rpc_trans_parse_msg\<close>. The out-parameters become a record; \<open>name\<close> and \<open>args\<close> point into
  the input buffer, so they are returned as the slices they designate (the name up to its
  terminator, the arguments with their length). \<open>None\<close> is the return value RPC_ERROR.
\<close>

record trans_msg =
  msg_type :: u8
  msg_seq :: u8
  msg_name :: "u8 list"
  msg_args :: "u8 list"
  msg_alen :: u16

definition rpc_trans_parse_msg :: "u8 list option \<Rightarrow> nat \<Rightarrow> trans_msg option" where
  "rpc_trans_parse_msg inp ilen =
    (case inp of
       None \<Rightarrow> None
     | Some buf \<Rightarrow>
         if ilen < MIN_PAYLOAD_SIZE \<or> ilen > MAX_PAYLOAD_SIZE then None
         else
           let t = buf ! 0; s = buf ! 1 in
           if \<not> valid_msg_type t then None
           else
             let name_start = 2 in
             if name_start \<ge> ilen then None
             else
               (case memchr (take (ilen - name_start) (drop name_start buf)) 0 of
                  None \<Rightarrow> None
                | Some nlen \<Rightarrow>
                    if nlen < MIN_FUNC_NAME_LEN \<or> nlen > MAX_FUNC_NAME_LEN then None
                    else
                      let i = name_start + nlen + 1 in
                      if i > ilen then None
                      else
                        let arg_len = ilen - i in
                        if arg_len > MAX_FUNC_ARGS_RESP_SIZE then None
                        else Some \<lparr> msg_type = t, msg_seq = s,
                                    msg_name = take nlen (drop name_start buf),
                                    msg_args = take arg_len (drop i buf),
                                    msg_alen = of_nat arg_len \<rparr>))"


section \<open>CRC8 (rpc_crc8.c)\<close>

definition CRC8_POLY :: u8 where "CRC8_POLY = 0x07"
definition CRC8_INIT :: u8 where "CRC8_INIT = 0x00"

text \<open>One turn of the inner loop: shift left and fold the polynomial in when bit 7 was set.\<close>

definition crc8_bit :: "u8 \<Rightarrow> u8 \<Rightarrow> u8" where
  "crc8_bit poly crc =
     (let mask = (if crc AND 0x80 \<noteq> 0 then 0xFF else 0x00)
      in push_bit 1 crc XOR (poly AND mask))"

fun crc8_bits :: "nat \<Rightarrow> u8 \<Rightarrow> u8 \<Rightarrow> u8" where
  "crc8_bits 0 poly crc = crc"
| "crc8_bits (Suc b) poly crc = crc8_bits b poly (crc8_bit poly crc)"

fun crc8_loop :: "u8 list \<Rightarrow> u8 \<Rightarrow> u8 \<Rightarrow> u8" where
  "crc8_loop [] crc poly = crc"
| "crc8_loop (d # ds) crc poly = crc8_loop ds (crc8_bits 8 poly (crc XOR d)) poly"

definition crc8_compute :: "u8 list \<Rightarrow> nat \<Rightarrow> u8 \<Rightarrow> u8 \<Rightarrow> u8" where
  "crc8_compute data len init poly = crc8_loop (take len data) init poly"

section \<open>OS abstraction (rpc_osal_linux.c)\<close>

text \<open>
  A bounded queue. When the queue is full the sender returns false at once for timeout 0 and
  otherwise waits for room until the timeout; in a sequential run no receiver makes room
  during the call, so the wait ends with the timeout and the send reports false.
\<close>

record 'a os_queue =
  q_items :: "'a list"
  q_capacity :: nat

definition os_queue_create :: "nat \<Rightarrow> 'a os_queue" where
  "os_queue_create len = \<lparr> q_items = [], q_capacity = len \<rparr>"

definition os_queue_send :: "'a os_queue \<Rightarrow> 'a \<Rightarrow> u32 \<Rightarrow> bool \<times> 'a os_queue" where
  "os_queue_send q item timeout_ms =
     (if length (q_items q) = q_capacity q then (False, q)
      else (True, q\<lparr> q_items := q_items q @ [item] \<rparr>))"

text \<open>
  A binary semaphore is its count (\<open>True\<close> is 1). Taking a given semaphore clears it; taking
  one that nobody gives during the wait returns false once the timeout has passed.
\<close>

definition os_sem_take :: "bool \<Rightarrow> u32 \<Rightarrow> bool \<times> bool" where
  "os_sem_take count timeout_ms = (if count then (True, False) else (False, count))"

definition os_sem_give :: "bool \<Rightarrow> bool" where
  "os_sem_give count = True"

section \<open>Link framing (rpc_link.c)\<close>

datatype st_t =
  ST_WAIT_SOF | ST_READ_LEN1 | ST_READ_LEN2 | ST_READ_HDRCRC
  | ST_WAIT_SOD | ST_READ_PAYLOAD | ST_READ_PKTCRC | ST_WAIT_EOF

text \<open>The parser context \<open>P\<close>; \<open>P_hdr\<close> is an array of 3 bytes, \<open>P_payload\<close> one of
  MAX_PAYLOAD_SIZE bytes.\<close>

record parser =
  P_st :: st_t
  P_length :: u16
  P_hdr :: "u8 list"
  P_payload_pos :: nat
  P_payload :: "u8 list"

text \<open>\<open>link_payload_t\<close>: an array of MAX_PAYLOAD_SIZE bytes and the number of valid ones.
  Bytes of a local \<open>link_payload_t\<close> that the code never initialises are taken as 0; only the
  first \<open>lp_payload_len\<close> bytes are ever read.\<close>

record link_payload =
  lp_payload :: "u8 list"
  lp_payload_len :: nat

definition rpc_link_init :: parser where
  "rpc_link_init =
     \<lparr> P_st = ST_WAIT_SOF, P_length = 0, P_hdr = replicate 3 0, P_payload_pos = 0,
       P_payload = replicate MAX_PAYLOAD_SIZE 0 \<rparr>"

definition rpc_link_reset_parser :: "parser \<Rightarrow> parser" where
  "rpc_link_reset_parser P = P\<lparr> P_st := ST_WAIT_SOF, P_payload_pos := 0, P_length := 0 \<rparr>"

text \<open>The conversion \<open>(size_t)(P.length - 3)\<close>: the subtraction is done in \<open>int\<close>, the
  result is reduced modulo \<open>2 ^ 64\<close>.\<close>

definition size_t_of_int :: "int \<Rightarrow> nat" where
  "size_t_of_int i = nat (i mod 2 ^ 64)"

text \<open>
  The body of the loop of \<open>rpc_link_feed_bytes\<close> for one byte \<open>b\<close>, on the parser context and
  the queue \<open>qLinkToTrans\<close>. \<open>None\<close> is a \<open>memcpy\<close> that would run past its destination
  (\<open>tmp\<close> or \<open>lp.payload\<close>), which the C code does not check.
\<close>

definition link_feed_byte ::
  "parser \<times> link_payload os_queue \<Rightarrow> u8 \<Rightarrow> (parser \<times> link_payload os_queue) option" where
  "link_feed_byte s b =
    (let P = fst s; q = snd s in
     case P_st P of
       ST_WAIT_SOF \<Rightarrow>
         if b = SOF then Some (P\<lparr> P_hdr := (P_hdr P)[0 := b], P_st := ST_READ_LEN1 \<rparr>, q)
         else Some (P, q)
     | ST_READ_LEN1 \<Rightarrow>
         Some (P\<lparr> P_hdr := (P_hdr P)[1 := b], P_st := ST_READ_LEN2 \<rparr>, q)
     | ST_READ_LEN2 \<Rightarrow>
         let hdr = (P_hdr P)[2 := b];
             len = push_bit 8 (ucast (hdr ! 2) :: u16) OR ucast (hdr ! 1);
             P1 = P\<lparr> P_hdr := hdr, P_length := len \<rparr>
         in if unat len < MIN_PKT_LEN \<or> unat len > MAX_PKT_LEN
            then Some (rpc_link_reset_parser P1, q)
            else Some (P1\<lparr> P_st := ST_READ_HDRCRC \<rparr>, q)
     | ST_READ_HDRCRC \<Rightarrow>
         let hdr_crc = crc8_compute (P_hdr P) 3 CRC8_INIT CRC8_POLY
         in if hdr_crc \<noteq> b then Some (rpc_link_reset_parser P, q)
            else Some (P\<lparr> P_st := ST_WAIT_SOD \<rparr>, q)
     | ST_WAIT_SOD \<Rightarrow>
         if b = SOD then Some (P\<lparr> P_payload_pos := 0, P_st := ST_READ_PAYLOAD \<rparr>, q)
         else Some (rpc_link_reset_parser P, q)
     | ST_READ_PAYLOAD \<Rightarrow>
         if P_payload_pos P < MAX_PAYLOAD_SIZE
            \<and> P_payload_pos P < size_t_of_int (int (unat (P_length P)) - 3)
         then
           let P1 = P\<lparr> P_payload := (P_payload P)[P_payload_pos P := b],
                       P_payload_pos := P_payload_pos P + 1 \<rparr>
           in if P_payload_pos P1 = size_t_of_int (int (unat (P_length P1)) - 3)
              then Some (P1\<lparr> P_st := ST_READ_PKTCRC \<rparr>, q)
              else Some (P1, q)
         else Some (rpc_link_reset_parser P, q)
     | ST_READ_PKTCRC \<Rightarrow>
         if P_payload_pos P > MAX_PAYLOAD_SIZE then None
         else
           let tmp = (replicate (MAX_PAYLOAD_SIZE + 1) 0)[0 := SOD];
               tmp = memcpy_at tmp 1 (P_payload P) (P_payload_pos P);
               pkt_crc = crc8_compute tmp (P_payload_pos P + 1) CRC8_INIT CRC8_POLY
           in if pkt_crc \<noteq> b then Some (rpc_link_reset_parser P, q)
              else Some (P\<lparr> P_st := ST_WAIT_EOF \<rparr>, q)
     | ST_WAIT_EOF \<Rightarrow>
         if b = EOF_byte then
           (if P_payload_pos P > MAX_PAYLOAD_SIZE then None
            else
              let lp = \<lparr> lp_payload = memcpy_at (replicate MAX_PAYLOAD_SIZE 0) 0 (P_payload P)
                                        (P_payload_pos P),
                         lp_payload_len = P_payload_pos P \<rparr>;
                  sent = os_queue_send q lp OS_WAIT_FOREVER
              in Some (rpc_link_reset_parser P, snd sent))
         else Some (rpc_link_reset_parser P, q))"

fun link_feed_loop ::
  "parser \<times> link_payload os_queue \<Rightarrow> u8 list \<Rightarrow> (parser \<times> link_payload os_queue) option" where
  "link_feed_loop s [] = Some s"
| "link_feed_loop s (b # bs) =
     (case link_feed_byte s b of None \<Rightarrow> None | Some s' \<Rightarrow> link_feed_loop s' bs)"

definition rpc_link_feed_bytes ::
  "parser \<times> link_payload os_queue \<Rightarrow> u8 list \<Rightarrow> nat
     \<Rightarrow> (parser \<times> link_payload os_queue) option" where
  "rpc_link_feed_bytes s d n = link_feed_loop s (take n d)"

text \<open>A receiver that hands the parser one chunk per call, as \<open>ThreadRX\<close> does with the
  chunks the PHY returns.\<close>

fun feed_chunks ::
  "parser \<times> link_payload os_queue \<Rightarrow> u8 list list \<Rightarrow> (parser \<times> link_payload os_queue) option" where
  "feed_chunks s [] = Some s"
| "feed_chunks s (c # cs) =
     (case rpc_link_feed_bytes s c (length c) of None \<Rightarrow> None | Some s' \<Rightarrow> feed_chunks s' cs)"

text \<open>
  \<open>rpc_link_build_frame\<close>. \<open>phy_send\<close> stands for \<open>rpc_phy_send\<close> (its result for the bytes
  handed over). The result is the return code and the bytes submitted to the PHY, if any.
\<close>

definition rpc_link_build_frame ::
  "u8 list option \<Rightarrow> nat \<Rightarrow> (u8 list \<Rightarrow> int) \<Rightarrow> int \<times> u8 list option" where
  "rpc_link_build_frame payload len phy_send =
    (case payload of
       None \<Rightarrow> (RPC_ERROR, None)
     | Some pl \<Rightarrow>
         if len > MAX_PAYLOAD_SIZE \<or> len < MIN_PAYLOAD_SIZE then (RPC_ERROR, None)
         else
           let frame = replicate (HEADER_SIZE + MAX_PKT_LEN) 0;
               frame = frame[0 := SOF];
               L = (of_nat (len + 3) :: u16);
               frame = frame[1 := ucast (L AND 0xFF)];
               frame = frame[2 := ucast (drop_bit 8 L)];
               hdr_crc = crc8_compute frame 3 CRC8_INIT CRC8_POLY;
               frame = frame[3 := hdr_crc];
               frame = frame[4 := SOD];
               frame = memcpy_at frame 5 pl len;
               pos = 5 + len;
               pkt_crc = crc8_compute (drop 4 frame) (len + 1) CRC8_INIT CRC8_POLY;
               frame = frame[pos := pkt_crc];
               frame = frame[pos + 1 := EOF_byte];
               pos = pos + 2;
               res = phy_send (take pos frame)
           in (if res < 0 then RPC_ERROR else RPC_SUCCESS, Some (take pos frame)))"

text \<open>
  The wire format as the specification states it,
  \<open>SOF | len_lo | len_hi | hdr_crc | SOD | payload | pkt_crc | EOF\<close>, with the length
  field counting everything from SOD through EOF, \<open>hdr_crc\<close> the CRC8 of the three bytes
  before it and \<open>pkt_crc\<close> the CRC8 of SOD and the payload. It is compared with the frame
  that \<open>rpc_link_build_frame\<close> assembles.
\<close>

definition wire_frame :: "u8 list \<Rightarrow> u8 list" where
  "wire_frame p =
     (let L = (of_nat (length p + 3) :: u16);
          len_lo = ucast (L AND 0xFF);
          len_hi = ucast (drop_bit 8 L);
          hdr_crc = crc8_compute [SOF, len_lo, len_hi] 3 CRC8_INIT CRC8_POLY;
          pkt_crc = crc8_compute (SOD # p) (length p + 1) CRC8_INIT CRC8_POLY
      in [SOF, len_lo, len_hi, hdr_crc, SOD] @ p @ [pkt_crc, EOF_byte])"

text \<open>
  The validation failures of the parser, by state: a length outside MIN_PKT_LEN .. MAX_PKT_LEN
  once both length bytes are in, a header CRC mismatch, a byte other than SOD in WAIT_SOD, a
  payload overflow, a packet CRC mismatch, a byte other than EOF in WAIT_EOF.
\<close>

definition validation_failure :: "parser \<Rightarrow> u8 \<Rightarrow> bool" where
  "validation_failure P b \<longleftrightarrow>
     (case P_st P of
        ST_WAIT_SOF \<Rightarrow> False
      | ST_READ_LEN1 \<Rightarrow> False
      | ST_READ_LEN2 \<Rightarrow>
          (let len = push_bit 8 (ucast b :: u16) OR ucast (P_hdr P ! 1)
           in unat len < MIN_PKT_LEN \<or> unat len > MAX_PKT_LEN)
      | ST_READ_HDRCRC \<Rightarrow> crc8_compute (P_hdr P) 3 CRC8_INIT CRC8_POLY \<noteq> b
      | ST_WAIT_SOD \<Rightarrow> b \<noteq> SOD
      | ST_READ_PAYLOAD \<Rightarrow>
          \<not> (P_payload_pos P < MAX_PAYLOAD_SIZE
             \<and> P_payload_pos P < size_t_of_int (int (unat (P_length P)) - 3))
      | ST_READ_PKTCRC \<Rightarrow>
          crc8_compute (SOD # P_payload P) (P_payload_pos P + 1) CRC8_INIT CRC8_POLY \<noteq> b
      | ST_WAIT_EOF \<Rightarrow> b \<noteq> EOF_byte)"

text \<open>What holds of the parser context between bytes: the sizes of its two arrays, and the
  payload position within the payload array.\<close>

definition parser_inv :: "parser \<Rightarrow> bool" where
  "parser_inv P \<longleftrightarrow>
     length (P_hdr P) = 3 \<and> length (P_payload P) = MAX_PAYLOAD_SIZE
     \<and> P_payload_pos P \<le> MAX_PAYLOAD_SIZE"

section \<open>Function registry (rpc_transport.c)\<close>

text \<open>\<open>strncmp(a, b, n) == 0\<close>: the strings agree on their first \<open>n\<close> characters, the
  comparison ending early at a terminator.\<close>

definition strncmp_eq :: "u8 list \<Rightarrow> u8 list \<Rightarrow> nat \<Rightarrow> bool" where
  "strncmp_eq a b n \<longleftrightarrow>
     take n (takeWhile (\<lambda>c. c \<noteq> 0) a) = take n (takeWhile (\<lambda>c. c \<noteq> 0) b)"

record 'f reg_entry =
  reg_name :: "u8 list"
  reg_fn :: 'f

text \<open>The table \<open>s_reg\<close> (an array of NUM_REG_FUNC entries, \<open>None\<close> where nothing was
  stored yet) and \<open>s_reg_count\<close>.\<close>

record 'f registry =
  s_reg :: "'f reg_entry option list"
  s_reg_count :: nat

definition registry_init :: "'f registry" where
  "registry_init = \<lparr> s_reg = replicate NUM_REG_FUNC None, s_reg_count = 0 \<rparr>"

fun find_reg_loop :: "'f registry \<Rightarrow> u8 list \<Rightarrow> nat \<Rightarrow> nat \<Rightarrow> int" where
  "find_reg_loop R name i 0 = RPC_ERROR"
| "find_reg_loop R name i (Suc n) =
     (case s_reg R ! i of
        Some e \<Rightarrow>
          if strncmp_eq (reg_name e) name MAX_FUNC_NAME_LEN then int i
          else find_reg_loop R name (Suc i) n
      | None \<Rightarrow> find_reg_loop R name (Suc i) n)"

definition find_reg :: "'f registry \<Rightarrow> u8 list \<Rightarrow> int" where
  "find_reg R name = find_reg_loop R name 0 (s_reg_count R)"

definition register_fn :: "'f registry \<Rightarrow> u8 list \<Rightarrow> 'f \<Rightarrow> int \<times> 'f registry" where
  "register_fn R name fn =
     (if s_reg_count R < NUM_REG_FUNC
      then (RPC_SUCCESS,
            R\<lparr> s_reg := (s_reg R)[s_reg_count R := Some \<lparr> reg_name = name, reg_fn = fn \<rparr>],
               s_reg_count := s_reg_count R + 1 \<rparr>)
      else (RPC_ERROR, R))"

text \<open>The entries registered so far, in registration order.\<close>

definition reg_entries :: "'f registry \<Rightarrow> 'f reg_entry option list" where
  "reg_entries R = take (s_reg_count R) (s_reg R)"

section \<open>Waiter table (rpc_transport.c)\<close>

text \<open>
  \<open>waiter_t\<close>. \<open>w_done\<close> is the count of the binary semaphore. \<open>w_resp_buf\<close> and \<open>w_resp_len\<close>
  are pointers into the caller's memory (\<open>None\<close> is NULL); the model keeps the bytes and the
  length they point to in the slot, since between allocation and release nobody else writes
  them.
\<close>

record waiter =
  w_seq :: u8
  w_done :: bool
  w_result_code :: int
  w_resp_buf :: "u8 list option"
  w_resp_len :: "u16 option"
  w_resp_buf_cap :: u16
  w_in_use :: bool

text \<open>\<open>rpc_request_t\<close>, the record handed to the workers.\<close>

record rpc_request =
  r_type :: u8
  r_seq :: u8
  r_name :: "u8 list"
  r_args :: "u8 list"
  r_alen :: u16

text \<open>The static state of the transport: the waiter table, the counter \<open>s_next_seq\<close> of
  \<open>rpc_trans_alloc_waiter\<close>, and the queues.\<close>

record trans_state =
  s_wait :: "waiter list"
  s_next_seq :: u8
  qTransToLink :: "link_payload os_queue"
  qRpcRequests :: "rpc_request os_queue"

definition rpc_trans_init :: trans_state where
  "rpc_trans_init =
     \<lparr> s_wait = replicate REQ_TABLE_SIZE
                  \<lparr> w_seq = 0, w_done = False, w_result_code = 0, w_resp_buf = None,
                    w_resp_len = None, w_resp_buf_cap = 0, w_in_use = False \<rparr>,
       s_next_seq = 1,
       qTransToLink = os_queue_create Q_TRANS_TO_LINK_DEPTH,
       qRpcRequests = os_queue_create Q_RPC_REQUEST_DEPTH \<rparr>"

text \<open>The scan for a free slot: the first index from \<open>i\<close> on, among \<open>n\<close>, that is not in use.\<close>

fun scan_free :: "waiter list \<Rightarrow> nat \<Rightarrow> nat \<Rightarrow> nat option" where
  "scan_free tbl i 0 = None"
| "scan_free tbl i (Suc n) =
     (if \<not> w_in_use (tbl ! i) then Some i else scan_free tbl (Suc i) n)"

text \<open>One attempt of \<open>rpc_trans_alloc_waiter\<close>, that is one section under \<open>s_wait_mtx\<close>: take
  the candidate sequence, advance the counter (skipping 0), claim the first free slot.\<close>

definition alloc_attempt :: "trans_state \<Rightarrow> (nat \<times> u8) option \<times> trans_state" where
  "alloc_attempt st =
     (let s = s_next_seq st;
          nxt = s + 1;
          nxt = (if nxt = 0 then 1 else nxt);
          st1 = st\<lparr> s_next_seq := nxt \<rparr>
      in case scan_free (s_wait st1) 0 REQ_TABLE_SIZE of
           Some i \<Rightarrow>
             (Some (i, s),
              st1\<lparr> s_wait := (s_wait st1)[i := (s_wait st1 ! i)\<lparr> w_in_use := True, w_seq := s \<rparr>] \<rparr>)
         | None \<Rightarrow> (None, st1))"

fun alloc_loop :: "nat \<Rightarrow> trans_state \<Rightarrow> (nat \<times> u8) option \<times> trans_state" where
  "alloc_loop 0 st = (None, st)"
| "alloc_loop (Suc n) st =
     (case alloc_attempt st of
        (Some r, st') \<Rightarrow> (Some r, st')
      | (None, st') \<Rightarrow> alloc_loop n st')"

text \<open>\<open>rpc_trans_alloc_waiter\<close>: up to 255 attempts. The result is the slot and its sequence,
  or \<open>None\<close> for RPC_ERROR.\<close>

definition rpc_trans_alloc_waiter :: "trans_state \<Rightarrow> (nat \<times> u8) option \<times> trans_state" where
  "rpc_trans_alloc_waiter st = alloc_loop 255 st"

text \<open>\<open>rpc_trans_find_waiter\<close>: the loop does not stop at a match, so the last match wins.\<close>

fun find_waiter_loop :: "waiter list \<Rightarrow> u8 \<Rightarrow> nat \<Rightarrow> nat \<Rightarrow> nat option \<Rightarrow> nat option" where
  "find_waiter_loop tbl seq i 0 ret = ret"
| "find_waiter_loop tbl seq i (Suc n) ret =
     find_waiter_loop tbl seq (Suc i) n
       (if w_in_use (tbl ! i) \<and> w_seq (tbl ! i) = seq then Some i else ret)"

definition rpc_trans_find_waiter :: "trans_state \<Rightarrow> u8 \<Rightarrow> nat option" where
  "rpc_trans_find_waiter st seq = find_waiter_loop (s_wait st) seq 0 REQ_TABLE_SIZE None"

definition rpc_trans_free_waiter :: "trans_state \<Rightarrow> nat option \<Rightarrow> trans_state" where
  "rpc_trans_free_waiter st w =
     (case w of
        None \<Rightarrow> st
      | Some i \<Rightarrow> st\<lparr> s_wait := (s_wait st)[i := (s_wait st ! i)\<lparr> w_in_use := False \<rparr>] \<rparr>)"

text \<open>The live sequences of a table, in slot order, and their uniqueness.\<close>

definition live_seqs :: "waiter list \<Rightarrow> u8 list" where
  "live_seqs tbl = map w_seq (filter w_in_use tbl)"

definition live_seq_unique :: "waiter list \<Rightarrow> bool" where
  "live_seq_unique tbl \<longleftrightarrow> distinct (live_seqs tbl)"

text \<open>Interleavings of callers on the waiter table: each step is one section under the
  mutex, an allocation attempt or the release of a slot.\<close>

datatype waiter_event = Alloc_attempt | Free_waiter nat

fun waiter_step :: "trans_state \<Rightarrow> waiter_event \<Rightarrow> trans_state" where
  "waiter_step st Alloc_attempt = snd (alloc_attempt st)"
| "waiter_step st (Free_waiter i) = rpc_trans_free_waiter st (Some i)"

fun waiter_run :: "trans_state \<Rightarrow> waiter_event list \<Rightarrow> trans_state" where
  "waiter_run st [] = st"
| "waiter_run st (e # es) = waiter_run (waiter_step st e) es"

fun is_alloc :: "waiter_event \<Rightarrow> bool" where
  "is_alloc Alloc_attempt = True"
| "is_alloc (Free_waiter i) = False"

text \<open>The next values of the sequence counter: \<open>seq_succ\<close> is its advance, \<open>upcoming s k\<close> the
  \<open>k\<close> candidates handed out from counter value \<open>s\<close> on.\<close>

definition seq_succ :: "u8 \<Rightarrow> u8" where
  "seq_succ s = (if s + 1 = 0 then 1 else s + 1)"

fun upcoming :: "u8 \<Rightarrow> nat \<Rightarrow> u8 list" where
  "upcoming s 0 = []"
| "upcoming s (Suc k) = s # upcoming (seq_succ s) k"

section \<open>Completion of a request (rpc_transport.c)\<close>

text \<open>
  The RESP/ERR branch of \<open>rpc_trans_handle_incoming\<close> on the matched waiter: the waiter after
  each store, in program order. The last element is the waiter when the branch is left.
\<close>

definition waiter_completion :: "waiter \<Rightarrow> u8 \<Rightarrow> u8 list \<Rightarrow> u16 \<Rightarrow> waiter list" where
  "waiter_completion w type args alen =
     (let rc = (if type = MSG_RESP then RPC_SUCCESS else RPC_ERROR) in
      if alen > w_resp_buf_cap w then
        let w1 = w\<lparr> w_result_code := RPC_ERROR_OVERFLOW \<rparr>;
            w2 = (case w_resp_len w1 of None \<Rightarrow> w1 | Some l \<Rightarrow> w1\<lparr> w_resp_len := Some 0 \<rparr>);
            w3 = w2\<lparr> w_done := os_sem_give (w_done w2) \<rparr>
        in [w1, w2, w3]
      else
        let w1 = (case w_resp_buf w of
                    Some buf \<Rightarrow>
                      if alen > 0
                      then w\<lparr> w_resp_buf := Some (memcpy_at buf 0 args (unat alen)) \<rparr>
                      else w
                  | None \<Rightarrow> w);
            w2 = (case w_resp_len w1 of None \<Rightarrow> w1 | Some l \<Rightarrow> w1\<lparr> w_resp_len := Some alen \<rparr>);
            w3 = w2\<lparr> w_result_code := rc \<rparr>;
            w4 = w3\<lparr> w_done := os_sem_give (w_done w3) \<rparr>
        in [w1, w2, w3, w4])"

definition rpc_trans_handle_incoming :: "trans_state \<Rightarrow> u8 list option \<Rightarrow> nat \<Rightarrow> trans_state" where
  "rpc_trans_handle_incoming st p n =
     (case rpc_trans_parse_msg p n of
        None \<Rightarrow> st
      | Some m \<Rightarrow>
          if msg_type m = MSG_RESP \<or> msg_type m = MSG_ERR then
            (case rpc_trans_find_waiter st (msg_seq m) of
               Some i \<Rightarrow>
                 st\<lparr> s_wait := (s_wait st)
                        [i := last (waiter_completion (s_wait st ! i) (msg_type m) (msg_args m)
                                      (msg_alen m))] \<rparr>
             | None \<Rightarrow> st)
          else if msg_type m = MSG_REQ \<or> msg_type m = MSG_STREAM then
            let req = \<lparr> r_type = msg_type m, r_seq = msg_seq m,
                        r_name = memcpy_at (replicate (MAX_FUNC_NAME_LEN + 1) 0) 0 (msg_name m)
                                   (min (length (msg_name m)) MAX_FUNC_NAME_LEN),
                        r_args = memcpy_at (replicate MAX_FUNC_ARGS_RESP_SIZE 0) 0 (msg_args m)
                                   (unat (msg_alen m)),
                        r_alen = msg_alen m \<rparr>;
                sent = os_queue_send (qRpcRequests st) req 0
            in st\<lparr> qRpcRequests := snd sent \<rparr>
          else st)"

text \<open>One turn of \<open>ThreadTrans\<close> on a payload received from \<open>qLinkToTrans\<close>.\<close>

definition trans_worker_step :: "trans_state \<Rightarrow> link_payload \<Rightarrow> trans_state" where
  "trans_worker_step st m = rpc_trans_handle_incoming st (Some (lp_payload m)) (lp_payload_len m)"

fun trans_worker_run :: "trans_state \<Rightarrow> link_payload list \<Rightarrow> trans_state" where
  "trans_worker_run st [] = st"
| "trans_worker_run st (m # ms) = trans_worker_run (trans_worker_step st m) ms"

section \<open>Requests and streams (rpc_transport.c)\<close>

text \<open>
  What a call of \<open>rpc_trans_request\<close> leaves to its caller: the return code, the response
  buffer and \<open>*resp_len\<close> after the call. \<open>rr_wait\<close> records the call of \<open>os_sem_take\<close> it
  made: the duration it passed and the result it got (\<open>None\<close> when it returned before
  waiting).
\<close>

record req_result =
  rr_rc :: int
  rr_resp_buf :: "u8 list option"
  rr_resp_len :: "u16 option"
  rr_wait :: "(u32 \<times> bool) option"

text \<open>
  The part of \<open>rpc_trans_request\<close> from the wait on: \<open>i\<close> is the caller's waiter slot and
  \<open>incoming\<close> the payloads that the transport worker handles while the caller is blocked in
  \<open>os_sem_take\<close>.
\<close>

definition rpc_trans_request_wait ::
  "trans_state \<Rightarrow> nat \<Rightarrow> u32 \<Rightarrow> link_payload list \<Rightarrow> req_result \<times> trans_state" where
  "rpc_trans_request_wait st i timeout_ms incoming =
     (let actual_timeout = (if timeout_ms \<noteq> 0 then timeout_ms else REQ_TIMEOUT_MS_DEFAULT);
          st = trans_worker_run st incoming;
          taken = os_sem_take (w_done (s_wait st ! i)) actual_timeout;
          st = st\<lparr> s_wait := (s_wait st)[i := (s_wait st ! i)\<lparr> w_done := snd taken \<rparr>] \<rparr>;
          w = s_wait st ! i
      in if \<not> fst taken then
           (\<lparr> rr_rc = RPC_ERROR, rr_resp_buf = w_resp_buf w, rr_resp_len = w_resp_len w,
              rr_wait = Some (actual_timeout, False) \<rparr>,
            rpc_trans_free_waiter st (Some i))
         else
           let rc = w_result_code w
           in (\<lparr> rr_rc = rc, rr_resp_buf = w_resp_buf w, rr_resp_len = w_resp_len w,
                 rr_wait = Some (actual_timeout, True) \<rparr>,
               rpc_trans_free_waiter st (Some i)))"

definition rpc_trans_request ::
  "trans_state \<Rightarrow> u8 list option \<Rightarrow> u8 list option \<Rightarrow> u16 \<Rightarrow> u8 list option \<Rightarrow> u16 option
     \<Rightarrow> u32 \<Rightarrow> link_payload list \<Rightarrow> req_result \<times> trans_state" where
  "rpc_trans_request st name args args_len resp_buf resp_len timeout_ms incoming =
     (let fail = \<lparr> rr_rc = RPC_ERROR, rr_resp_buf = resp_buf, rr_resp_len = resp_len,
                   rr_wait = None \<rparr>
      in case name of
           None \<Rightarrow> (fail, st)
         | Some nm \<Rightarrow>
             let nlen = strlen nm in
             if nlen < MIN_FUNC_NAME_LEN \<or> nlen > MAX_FUNC_NAME_LEN then (fail, st)
             else
               (case (resp_buf, resp_len) of
                  (Some rb, Some rl) \<Rightarrow>
                    if unat rl < MAX_FUNC_ARGS_RESP_SIZE then (fail, st)
                    else
                      (case rpc_trans_alloc_waiter st of
                         (None, st) \<Rightarrow> (fail, st)
                       | (Some (i, seq), st) \<Rightarrow>
                           let st = st\<lparr> s_wait := (s_wait st)
                                      [i := (s_wait st ! i)\<lparr> w_resp_buf := resp_buf,
                                              w_resp_len := resp_len, w_resp_buf_cap := rl \<rparr>] \<rparr>;
                               built = rpc_trans_build_msg MSG_REQ seq name args args_len
                                         (Some (replicate MAX_PAYLOAD_SIZE 0)) MAX_PAYLOAD_SIZE
                           in (case built of
                                 (plen, Some out) \<Rightarrow>
                                   if plen = 0 then (fail, rpc_trans_free_waiter st (Some i))
                                   else
                                     let lp = \<lparr> lp_payload = out, lp_payload_len = plen \<rparr>;
                                         sent = os_queue_send (qTransToLink st) lp OS_WAIT_FOREVER
                                     in if \<not> fst sent
                                        then (fail, rpc_trans_free_waiter st (Some i))
                                        else rpc_trans_request_wait
                                               (st\<lparr> qTransToLink := snd sent \<rparr>) i timeout_ms
                                               incoming
                               | (plen, None) \<Rightarrow> (fail, rpc_trans_free_waiter st (Some i))))
                | _ \<Rightarrow> (fail, st)))"

definition rpc_trans_stream ::
  "trans_state \<Rightarrow> u8 list option \<Rightarrow> u8 list option \<Rightarrow> u16 \<Rightarrow> int \<times> trans_state" where
  "rpc_trans_stream st name args args_len =
     (case name of
        None \<Rightarrow> (RPC_ERROR, st)
      | Some nm \<Rightarrow>
          let nlen = strlen nm in
          if nlen < MIN_FUNC_NAME_LEN \<or> nlen > MAX_FUNC_NAME_LEN then (RPC_ERROR, st)
          else
            (case rpc_trans_build_msg MSG_STREAM 0 name args args_len
                    (Some (replicate MAX_PAYLOAD_SIZE 0)) MAX_PAYLOAD_SIZE of
               (plen, Some out) \<Rightarrow>
                 if plen = 0 then (RPC_ERROR, st)
                 else
                   let lp = \<lparr> lp_payload = out, lp_payload_len = plen \<rparr>;
                       sent = os_queue_send (qTransToLink st) lp OS_WAIT_FOREVER
                   in if \<not> fst sent then (RPC_ERROR, st)
                      else (RPC_SUCCESS, st\<lparr> qTransToLink := snd sent \<rparr>)
             | (plen, None) \<Rightarrow> (RPC_ERROR, st)))"

text \<open>The public entry points of rpc.c delegate to the transport.\<close>

definition rpc_request ::
  "trans_state \<Rightarrow> u8 list option \<Rightarrow> u8 list option \<Rightarrow> u16 \<Rightarrow> u8 list option \<Rightarrow> u16 option
     \<Rightarrow> u32 \<Rightarrow> link_payload list \<Rightarrow> req_result \<times> trans_state" where
  "rpc_request st name args args_len resp_buf resp_len timeout_ms incoming =
     rpc_trans_request st name args args_len resp_buf resp_len timeout_ms incoming"

definition rpc_stream ::
  "trans_state \<Rightarrow> u8 list option \<Rightarrow> u8 list option \<Rightarrow> u16 \<Rightarrow> int \<times> trans_state" where
  "rpc_stream st name args args_len = rpc_trans_stream st name args args_len"

section \<open>Example inputs\<close>

text \<open>The name \<open>ping\<close>.\<close>

definition ex_ping :: "u8 list" where "ex_ping = [0x70, 0x69, 0x6E, 0x67]"

text \<open>A registry holding \<open>ping\<close>, and a full one.\<close>

definition reg_ping :: "nat registry" where
  "reg_ping = snd (register_fn registry_init [0x70, 0x69, 0x6E, 0x67] 1)"

definition reg_full :: "nat registry" where
  "reg_full =
     \<lparr> s_reg = replicate NUM_REG_FUNC (Some \<lparr> reg_name = ex_ping, reg_fn = 1 \<rparr>),
       s_reg_count = NUM_REG_FUNC \<rparr>"

text \<open>Live waiters with sequence 5, of capacity 2 and of full capacity, and the transport
  state holding one of them in slot 0.\<close>

definition ex_small_waiter :: waiter where
  "ex_small_waiter =
     \<lparr> w_seq = 5, w_done = False, w_result_code = 0, w_resp_buf = Some [0, 0],
       w_resp_len = Some 2, w_resp_buf_cap = 2, w_in_use = True \<rparr>"

definition ex_roomy_waiter :: waiter where
  "ex_roomy_waiter =
     \<lparr> w_seq = 5, w_done = False, w_result_code = 0,
       w_resp_buf = Some (replicate MAX_FUNC_ARGS_RESP_SIZE 0),
       w_resp_len = Some 64, w_resp_buf_cap = 64, w_in_use = True \<rparr>"

definition ex_state :: "waiter \<Rightarrow> trans_state" where
  "ex_state w = rpc_trans_init\<lparr> s_wait := (s_wait rpc_trans_init)[0 := w] \<rparr>"

text \<open>A RESP payload for sequence 5, name \<open>a\<close> and the body 1, 2, 3, and its parsed form.\<close>

definition ex_resp :: link_payload where
  "ex_resp = \<lparr> lp_payload = [MSG_RESP, 5, 0x61, 0, 1, 2, 3], lp_payload_len = 7 \<rparr>"

definition ex_resp_msg :: trans_msg where
  "ex_resp_msg = \<lparr> msg_type = MSG_RESP, msg_seq = 5, msg_name = [0x61], msg_args = [1, 2, 3],
                   msg_alen = 3 \<rparr>"

text \<open>An interleaving with 256 allocation attempts: slot 0 is claimed and kept, slot 1 is
  claimed and released 254 times, then claimed once more.\<close>

definition collide_trace :: "waiter_event list" where
  "collide_trace =
     Alloc_attempt # concat (replicate 254 [Alloc_attempt, Free_waiter 1]) @ [Alloc_attempt]"

text \<open>A payload of minimal size (a REQ for the name \<open>a\<close>), its frame, and an empty
  link-to-transport queue.\<close>

definition ex_payload :: "u8 list" where
  "ex_payload = [MSG_REQ, 1, 0x61, 0]"

definition ex_frame :: "u8 list" where
  "ex_frame = [0xFA, 7, 0, 0x80, 0xFB, 0x0B, 1, 0x61, 0, 0xB7, 0xFE]"

definition ex_queue :: "link_payload os_queue" where
  "ex_queue = os_queue_create Q_LINK_TO_TRANS_DEPTH"

section \<open>Unfolding sets and library facts\<close>

lemmas size_defs =
  MIN_FUNC_NAME_LEN_def MAX_FUNC_NAME_LEN_def MAX_FUNC_ARGS_RESP_SIZE_def
  HEADER_SIZE_def SOD_SIZE_def CRC_PKT_SIZE_def EOF_SIZE_def TYPE_MSG_SIZE_def
  SEQ_MSG_SIZE_def TERM_SIZE_def MIN_PAYLOAD_SIZE_def MAX_PAYLOAD_SIZE_def
  MAX_PKT_LEN_def MIN_PKT_LEN_def

lemmas msg_defs = MSG_REQ_def MSG_STREAM_def MSG_RESP_def MSG_ERR_def

lemma valid_types [simp]:
  "valid_msg_type MSG_REQ" "valid_msg_type MSG_STREAM" "valid_msg_type MSG_RESP"
  "valid_msg_type MSG_ERR"
  by (simp_all add: valid_msg_type_def)

lemma takeWhile_all_len: "c \<notin> set s \<Longrightarrow> length (takeWhile (\<lambda>x. x \<noteq> c) s) = length s"
  by (induction s) auto

lemma strlen_no_nul: "0 \<notin> set s \<Longrightarrow> strlen s = length s"
  by (simp add: strlen_def takeWhile_all_len)

lemma strlen_cstr: "strlen s = length (cstr s)"
  by (simp add: strlen_def cstr_def)

lemma take_strlen: "take (strlen s) s = cstr s"
  by (simp add: strlen_def cstr_def takeWhile_eq_take[symmetric])

lemma cstr_no_nul: "0 \<notin> set (cstr s)"
  by (auto simp: cstr_def dest: set_takeWhileD)

lemma memchr_first: "c \<notin> set xs \<Longrightarrow> memchr (xs @ c # ys) c = Some (length xs)"
  by (induction xs) (auto simp: memchr_def)

lemma unat_len16: "n \<le> 64 \<Longrightarrow> unat (of_nat n :: u16) = n"
  by (simp add: unat_of_nat)

lemma upd_drop: "k < length xs \<Longrightarrow> (drop k xs)[0 := v] = v # drop (Suc k) xs"
  by (simp add: Cons_nth_drop_Suc[symmetric])

section \<open>The transport codec round trip\<close>

lemma build_bytes:
  assumes "valid_msg_type type"
    and "MIN_FUNC_NAME_LEN \<le> length name" and "length name \<le> MAX_FUNC_NAME_LEN"
    and "0 \<notin> set name"
    and "length a \<le> MAX_FUNC_ARGS_RESP_SIZE"
    and "args = Some a \<or> (args = None \<and> a = [])"
    and "2 + length name + 1 + length a \<le> olen" and "olen \<le> length buf"
  shows "rpc_trans_build_msg type seq (Some name) args (of_nat (length a)) (Some buf) olen =
           (2 + length name + 1 + length a,
            Some ([type, seq] @ name @ [0] @ a @ drop (2 + length name + 1 + length a) buf))"
proof -
  have ua: "unat (of_nat (length a) :: u16) = length a"
    using assms(5) by (simp add: unat_len16 MAX_FUNC_ARGS_RESP_SIZE_def)
  have sl: "strlen name = length name" using assms(4) by (rule strlen_no_nul)
  have len: "2 \<le> length buf" using assms(7,8) by simp
  obtain b0 b1 rest where buf: "buf = b0 # b1 # rest"
    using len by (cases buf; cases "tl buf") auto
  have lr: "length name + 1 + length a \<le> length rest"
    using assms(7,8) buf by simp
  have z: "(of_nat (length a) :: u16) = 0 \<longleftrightarrow> a = []"
    using ua by (metis length_0_conv unat_eq_0)
  have u1: "(drop (length name) rest)[0 := 0] = 0 # drop (Suc (length name)) rest"
    using lr by (simp add: upd_drop)
  show ?thesis
    using assms(1,2,3,5,6,7,8) lr
    by (auto simp: rpc_trans_build_msg_def ua sl Let_def buf memcpy_at_def size_defs z u1
        list_update_append nth_append add.commute)
qed

lemma parse_bytes:
  assumes "valid_msg_type type"
    and "MIN_FUNC_NAME_LEN \<le> length name" and "length name \<le> MAX_FUNC_NAME_LEN"
    and "0 \<notin> set name"
    and "length a \<le> MAX_FUNC_ARGS_RESP_SIZE"
  shows "rpc_trans_parse_msg (Some ([type, seq] @ name @ [0] @ a @ rest))
           (2 + length name + 1 + length a) =
         Some \<lparr> msg_type = type, msg_seq = seq, msg_name = name, msg_args = a,
                 msg_alen = of_nat (length a) \<rparr>"
proof -
  have mc: "memchr (take (length name + 1 + length a) (name @ [0] @ a @ rest)) 0
              = Some (length name)"
    using memchr_first[OF assms(4), of a] by simp
  show ?thesis
    using assms(1,2,3,5) mc
    by (auto simp: rpc_trans_parse_msg_def Let_def size_defs)
qed

text \<open>
  Claim C1. For every message type among REQ, STREAM, RESP and ERR, every sequence number,
  every name of a length within the bounds and without a NUL byte, and every argument buffer
  of at most MAX_FUNC_ARGS_RESP_SIZE bytes (the pointer may be NULL when the length is 0),
  \<open>rpc_trans_build_msg\<close> into a buffer of the capacity the callers provide returns a
  nonzero size, and \<open>rpc_trans_parse_msg\<close> on that payload succeeds and gives back the
  same type, sequence, name and argument bytes.
\<close>

theorem codec_round_trip:
  assumes "valid_msg_type type"
    and "MIN_FUNC_NAME_LEN \<le> length name" and "length name \<le> MAX_FUNC_NAME_LEN"
    and "0 \<notin> set name"
    and "length a \<le> MAX_FUNC_ARGS_RESP_SIZE"
    and "args = Some a \<or> (args = None \<and> a = [])"
    and "2 + length name + 1 + length a \<le> olen" and "olen \<le> length buf"
  shows "\<exists>n out.
           rpc_trans_build_msg type seq (Some name) args (of_nat (length a)) (Some buf) olen
             = (n, Some out) \<and> 0 < n \<and>
           rpc_trans_parse_msg (Some out) n =
             Some \<lparr> msg_type = type, msg_seq = seq, msg_name = name, msg_args = a,
                     msg_alen = of_nat (length a) \<rparr>"
  using build_bytes[OF assms, of seq] parse_bytes[OF assms(1-5), of seq] by simp

theorem codec_round_trip_witness:
  "valid_msg_type MSG_REQ \<and> MIN_FUNC_NAME_LEN \<le> length [0x70, 0x69, 0x6E, 0x67 :: u8]
   \<and> length [0x70, 0x69, 0x6E, 0x67 :: u8] \<le> MAX_FUNC_NAME_LEN
   \<and> 0 \<notin> set [0x70, 0x69, 0x6E, 0x67 :: u8]
   \<and> length [1, 2, 3 :: u8] \<le> MAX_FUNC_ARGS_RESP_SIZE
   \<and> 2 + length [0x70, 0x69, 0x6E, 0x67 :: u8] + 1 + length [1, 2, 3 :: u8] \<le> MAX_PAYLOAD_SIZE
   \<and> MAX_PAYLOAD_SIZE \<le> length (replicate MAX_PAYLOAD_SIZE (0 :: u8))
   \<and> (\<exists>n out.
         rpc_trans_build_msg MSG_REQ 7 (Some [0x70, 0x69, 0x6E, 0x67]) (Some [1, 2, 3])
             (of_nat (length [1, 2, 3 :: u8])) (Some (replicate MAX_PAYLOAD_SIZE 0))
             MAX_PAYLOAD_SIZE = (n, Some out) \<and> 0 < n \<and>
         rpc_trans_parse_msg (Some out) n =
           Some \<lparr> msg_type = MSG_REQ, msg_seq = 7, msg_name = [0x70, 0x69, 0x6E, 0x67],
                   msg_args = [1, 2, 3], msg_alen = of_nat (length [1, 2, 3 :: u8]) \<rparr>)"
proof -
  have h1: "valid_msg_type MSG_REQ" by (simp add: valid_msg_type_def)
  have h2: "MIN_FUNC_NAME_LEN \<le> length [0x70, 0x69, 0x6E, 0x67 :: u8]"
    by (simp add: size_defs)
  have h3: "length [0x70, 0x69, 0x6E, 0x67 :: u8] \<le> MAX_FUNC_NAME_LEN"
    by (simp add: size_defs)
  have h4: "0 \<notin> set [0x70, 0x69, 0x6E, 0x67 :: u8]" by simp
  have h5: "length [1, 2, 3 :: u8] \<le> MAX_FUNC_ARGS_RESP_SIZE" by (simp add: size_defs)
  have h6: "Some [1, 2, 3 :: u8] = Some [1, 2, 3] \<or> (Some [1, 2, 3 :: u8] = None \<and> [1, 2, 3 :: u8] = [])"
    by simp
  have h7: "2 + length [0x70, 0x69, 0x6E, 0x67 :: u8] + 1 + length [1, 2, 3 :: u8]
              \<le> MAX_PAYLOAD_SIZE" by (simp add: size_defs)
  have h8: "MAX_PAYLOAD_SIZE \<le> length (replicate MAX_PAYLOAD_SIZE (0 :: u8))" by simp
  from codec_round_trip [OF h1 h2 h3 h4 h5 h6 h7 h8, of 7] h1 h2 h3 h4 h5 h7 h8
  show ?thesis by blast
qed

section \<open>Link framing\<close>

lemma len_bytes_roundtrip:
  "push_bit 8 (ucast (ucast (drop_bit 8 L) :: u8) :: u16) OR ucast (ucast (L AND 0xFF) :: u8) = (L :: u16)"
proof -
  have m: "(0xFF :: u16) = mask 8" by (simp add: mask_eq_exp_minus_1)
  show ?thesis
    unfolding m by (rule bit_word_eqI) (auto simp: bit_simps)
qed

lemma size_t_minus3: "n \<le> 99 \<Longrightarrow> size_t_of_int (int (n + 3) - 3) = n"
  by (simp add: size_t_of_int_def)

lemma unat_pkt_len: "n \<le> 99 \<Longrightarrow> unat (of_nat (n + 3) :: u16) = n + 3"
proof -
  assume "n \<le> 99"
  then have "n + 3 < 2 ^ LENGTH(16)" by simp
  then show ?thesis by (simp only: unat_of_nat mod_less)
qed

lemma lu_Cons_pos: "0 < i \<Longrightarrow> (x # xs)[i := v] = x # xs[i - 1 := v]"
  by (cases i) simp_all

lemma drop5_Cons: "drop (5 + n) (a # b # c # d # e # xs) = drop n xs"
proof -
  have "5 + n = Suc (Suc (Suc (Suc (Suc n))))" by simp
  then show ?thesis by (simp only: drop_Suc_Cons)
qed

lemma frame_buffer_split:
  assumes "len \<le> 99"
  shows "replicate (HEADER_SIZE + MAX_PKT_LEN) (0 :: u8) =
           0 # 0 # 0 # 0 # 0 # replicate len 0 @ 0 # 0 # replicate (99 - len) 0"
proof -
  have "HEADER_SIZE + MAX_PKT_LEN = 5 + (len + (2 + (99 - len)))"
    using assms by (simp add: size_defs)
  then have "replicate (HEADER_SIZE + MAX_PKT_LEN) (0 :: u8) =
               replicate 5 0 @ replicate len 0 @ replicate 2 0 @ replicate (99 - len) 0"
    by (simp only: replicate_add)
  then show ?thesis by (simp add: numeral_eq_Suc)
qed

lemma build_frame_wire:
  assumes "MIN_PAYLOAD_SIZE \<le> len" and "len \<le> MAX_PAYLOAD_SIZE" and "len \<le> length pl"
  shows "snd (rpc_link_build_frame (Some pl) len phy) = Some (wire_frame (take len pl))"
proof -
  have l99: "len \<le> 99" using assms(2) by (simp add: size_defs)
  have lt: "length (take len pl) = len" using assms(3) by simp
  have ok: "\<not> (len > MAX_PAYLOAD_SIZE \<or> len < MIN_PAYLOAD_SIZE)" using assms(1,2) by simp
  show ?thesis
    unfolding rpc_link_build_frame_def wire_frame_def frame_buffer_split [OF l99]
    using ok lt
    by (simp add: Let_def lu_Cons_pos memcpy_at_def crc8_compute_def list_update_append
        min_absorb2 assms(3) drop5_Cons)
qed

lemma feed_loop_append:
  "link_feed_loop s (xs @ ys) =
     (case link_feed_loop s xs of None \<Rightarrow> None | Some s' \<Rightarrow> link_feed_loop s' ys)"
  by (induction xs arbitrary: s) (simp_all split: option.splits)

lemma feed_chunks_concat:
  "feed_chunks s cs = link_feed_loop s (concat cs)"
  by (induction cs arbitrary: s)
     (simp_all add: rpc_link_feed_bytes_def feed_loop_append split: option.splits)

lemma feed_header:
  assumes "n \<le> 99" and "4 \<le> n"
    and "P_st P = ST_WAIT_SOF" and "length (P_hdr P) = 3"
  defines "L \<equiv> (of_nat (n + 3) :: u16)"
  defines "lo \<equiv> (ucast (L AND 0xFF) :: u8)" and "hi \<equiv> (ucast (drop_bit 8 L) :: u8)"
  shows "link_feed_loop (P, q)
           [SOF, lo, hi, crc8_compute [SOF, lo, hi] 3 CRC8_INIT CRC8_POLY, SOD] =
         Some (P\<lparr> P_hdr := [SOF, lo, hi], P_length := L, P_payload_pos := 0,
                  P_st := ST_READ_PAYLOAD \<rparr>, q)"
proof -
  obtain h0 h1 h2 where h: "P_hdr P = [h0, h1, h2]"
    using assms(4) by (cases "P_hdr P"; cases "tl (P_hdr P)"; cases "tl (tl (P_hdr P))") auto
  have len: "push_bit 8 (ucast hi :: u16) OR ucast lo = L"
    unfolding lo_def hi_def by (rule len_bytes_roundtrip)
  have u: "unat L = n + 3" unfolding L_def by (rule unat_pkt_len [OF assms(1)])
  have rng: "\<not> (unat L < MIN_PKT_LEN \<or> unat L > MAX_PKT_LEN)"
    using u assms(1,2) by (simp add: size_defs)
  let ?P1 = "P\<lparr> P_hdr := [SOF, h1, h2], P_st := ST_READ_LEN1 \<rparr>"
  let ?P2 = "P\<lparr> P_hdr := [SOF, lo, h2], P_st := ST_READ_LEN2 \<rparr>"
  let ?P3 = "P\<lparr> P_hdr := [SOF, lo, hi], P_length := L, P_st := ST_READ_HDRCRC \<rparr>"
  let ?P4 = "P\<lparr> P_hdr := [SOF, lo, hi], P_length := L, P_st := ST_WAIT_SOD \<rparr>"
  let ?P5 = "P\<lparr> P_hdr := [SOF, lo, hi], P_length := L, P_payload_pos := 0,
               P_st := ST_READ_PAYLOAD \<rparr>"
  have s1: "link_feed_byte (P, q) SOF = Some (?P1, q)"
    using assms(3) by (simp add: link_feed_byte_def h)
  have s2: "link_feed_byte (?P1, q) lo = Some (?P2, q)"
    by (simp add: link_feed_byte_def)
  have s3: "link_feed_byte (?P2, q) hi = Some (?P3, q)"
    using rng len by (simp add: link_feed_byte_def Let_def lu_Cons_pos)
  have s4: "link_feed_byte (?P3, q) (crc8_compute [SOF, lo, hi] 3 CRC8_INIT CRC8_POLY)
              = Some (?P4, q)"
    by (simp add: link_feed_byte_def Let_def)
  have s5: "link_feed_byte (?P4, q) SOD = Some (?P5, q)"
    by (simp add: link_feed_byte_def)
  show ?thesis using s1 s2 s3 s4 s5 by simp
qed

lemma feed_payload:
  assumes "P_st P = ST_READ_PAYLOAD" and "unat (P_length P) = n + 3"
    and "n \<le> MAX_PAYLOAD_SIZE" and "P_payload_pos P + length xs = n" and "xs \<noteq> []"
    and "length (P_payload P) = MAX_PAYLOAD_SIZE"
  shows "link_feed_loop (P, q) xs =
           Some (P\<lparr> P_payload := take (P_payload_pos P) (P_payload P) @ xs @ drop n (P_payload P),
                    P_payload_pos := n, P_st := ST_READ_PKTCRC \<rparr>, q)"
  using assms
proof (induction xs arbitrary: P)
  case Nil
  then show ?case by simp
next
  case (Cons b xs)
  let ?pos = "P_payload_pos P"
  let ?P1 = "P\<lparr> P_payload := (P_payload P)[?pos := b], P_payload_pos := ?pos + 1 \<rparr>"
  have n99: "n \<le> 99" using Cons.prems(3) by (simp add: size_defs)
  have posn: "?pos < n" using Cons.prems(4) by simp
  have posl: "?pos < length (P_payload P)" using posn Cons.prems(3,6) by simp
  have sz: "size_t_of_int (int (unat (P_length P)) - 3) = n"
    using size_t_minus3 [OF n99] Cons.prems(2) by simp
  show ?case
  proof (cases xs)
    case Nil
    then have e: "?pos + 1 = n" using Cons.prems(4) by simp
    have step: "link_feed_byte (P, q) b = Some (?P1\<lparr> P_st := ST_READ_PKTCRC \<rparr>, q)"
      using Cons.prems(1,3) posn e sz
      by (simp add: link_feed_byte_def Let_def)
    have "(P_payload P)[?pos := b] = take ?pos (P_payload P) @ [b] @ drop n (P_payload P)"
      using posl e by (simp add: upd_conv_take_nth_drop)
    with step Nil e show ?thesis by simp
  next
    case (Cons b' r)
    then have ne: "?pos + 1 \<noteq> n" using Cons.prems(4) by simp
    have step: "link_feed_byte (P, q) b = Some (?P1, q)"
      using Cons.prems(1,3) posn ne sz
      by (simp add: link_feed_byte_def Let_def)
    have ih: "link_feed_loop (?P1, q) xs =
                Some (?P1\<lparr> P_payload := take (P_payload_pos ?P1) (P_payload ?P1) @ xs
                                 @ drop n (P_payload ?P1),
                           P_payload_pos := n, P_st := ST_READ_PKTCRC \<rparr>, q)"
      using Cons.prems Cons by (intro Cons.IH) simp_all
    have t: "take (Suc ?pos) ((P_payload P)[?pos := b]) = take ?pos (P_payload P) @ [b]"
      using posl by (simp add: take_Suc_conv_app_nth)
    have d: "drop n ((P_payload P)[?pos := b]) = drop n (P_payload P)"
      using posn by simp
    show ?thesis using step ih t d by simp
  qed
qed

lemma feed_trailer:
  assumes "P_st P = ST_READ_PKTCRC" and "P_payload_pos P = length p"
    and "length p \<le> MAX_PAYLOAD_SIZE" and "take (length p) (P_payload P) = p"
    and "length (q_items q) \<noteq> q_capacity q"
  shows "link_feed_loop (P, q)
           [crc8_compute (SOD # p) (length p + 1) CRC8_INIT CRC8_POLY, EOF_byte] =
         Some (rpc_link_reset_parser P,
               q\<lparr> q_items := q_items q @
                      [\<lparr> lp_payload = p @ replicate (MAX_PAYLOAD_SIZE - length p) 0,
                         lp_payload_len = length p \<rparr>] \<rparr>)"
proof -
  have tmp: "take (length p + 1)
               (memcpy_at ((replicate (MAX_PAYLOAD_SIZE + 1) 0)[0 := SOD]) 1 (P_payload P)
                  (length p)) = SOD # p"
    using assms(4) by (simp add: memcpy_at_def)
  have crc: "crc8_compute
               (memcpy_at ((replicate (MAX_PAYLOAD_SIZE + 1) 0)[0 := SOD]) 1 (P_payload P)
                  (length p)) (length p + 1) CRC8_INIT CRC8_POLY
             = crc8_compute (SOD # p) (length p + 1) CRC8_INIT CRC8_POLY"
    unfolding crc8_compute_def tmp by simp
  have s1: "link_feed_byte (P, q) (crc8_compute (SOD # p) (length p + 1) CRC8_INIT CRC8_POLY)
              = Some (P\<lparr> P_st := ST_WAIT_EOF \<rparr>, q)"
    using assms(1,2,3) crc by (simp add: link_feed_byte_def Let_def)
  have lp: "memcpy_at (replicate MAX_PAYLOAD_SIZE 0) 0 (P_payload P) (length p)
              = p @ replicate (MAX_PAYLOAD_SIZE - length p) 0"
    using assms(4) by (simp add: memcpy_at_def)
  have s2: "link_feed_byte (P\<lparr> P_st := ST_WAIT_EOF \<rparr>, q) EOF_byte =
              Some (rpc_link_reset_parser P,
               q\<lparr> q_items := q_items q @
                      [\<lparr> lp_payload = p @ replicate (MAX_PAYLOAD_SIZE - length p) 0,
                         lp_payload_len = length p \<rparr>] \<rparr>)"
    using assms(2,3,5) lp
    by (simp add: link_feed_byte_def Let_def os_queue_send_def rpc_link_reset_parser_def)
  show ?thesis using s1 s2 by simp
qed

lemma feed_wire_frame:
  assumes "MIN_PAYLOAD_SIZE \<le> length p" and "length p \<le> MAX_PAYLOAD_SIZE"
    and "P_st P = ST_WAIT_SOF" and "length (P_hdr P) = 3"
    and "length (P_payload P) = MAX_PAYLOAD_SIZE"
    and "length (q_items q) \<noteq> q_capacity q"
  shows "\<exists>P'. link_feed_loop (P, q) (wire_frame p) =
           Some (P', q\<lparr> q_items := q_items q @
                      [\<lparr> lp_payload = p @ replicate (MAX_PAYLOAD_SIZE - length p) 0,
                         lp_payload_len = length p \<rparr>] \<rparr>)
         \<and> P_st P' = ST_WAIT_SOF \<and> P_payload_pos P' = 0 \<and> P_length P' = 0
         \<and> length (P_hdr P') = 3 \<and> length (P_payload P') = MAX_PAYLOAD_SIZE"
proof -
  define L where "L = (of_nat (length p + 3) :: u16)"
  define lo where "lo = (ucast (L AND 0xFF) :: u8)"
  define hi where "hi = (ucast (drop_bit 8 L) :: u8)"
  have n99: "length p \<le> 99" and n4: "4 \<le> length p"
    using assms(1,2) by (simp_all add: size_defs)
  have pne: "p \<noteq> []" using n4 by auto
  let ?P5 = "P\<lparr> P_hdr := [SOF, lo, hi], P_length := L, P_payload_pos := 0,
               P_st := ST_READ_PAYLOAD \<rparr>"
  have hd: "link_feed_loop (P, q)
              [SOF, lo, hi, crc8_compute [SOF, lo, hi] 3 CRC8_INIT CRC8_POLY, SOD] = Some (?P5, q)"
    unfolding lo_def hi_def L_def by (rule feed_header [OF n99 n4 assms(3,4)])
  have "unat L = length p + 3" unfolding L_def by (rule unat_pkt_len [OF n99])
  then have u: "unat (P_length ?P5) = length p + 3" by simp
  let ?P6 = "?P5\<lparr> P_payload := take (P_payload_pos ?P5) (P_payload ?P5) @ p
                         @ drop (length p) (P_payload ?P5),
                  P_payload_pos := length p, P_st := ST_READ_PKTCRC \<rparr>"
  have pl: "link_feed_loop (?P5, q) p = Some (?P6, q)"
    by (rule feed_payload [OF _ u assms(2) _ pne]) (simp_all add: assms(5))
  have tk: "take (length p) (P_payload ?P6) = p" by simp
  have tr: "link_feed_loop (?P6, q)
              [crc8_compute (SOD # p) (length p + 1) CRC8_INIT CRC8_POLY, EOF_byte] =
            Some (rpc_link_reset_parser ?P6,
               q\<lparr> q_items := q_items q @
                      [\<lparr> lp_payload = p @ replicate (MAX_PAYLOAD_SIZE - length p) 0,
                         lp_payload_len = length p \<rparr>] \<rparr>)"
    by (rule feed_trailer [OF _ _ assms(2) tk assms(6)]) simp_all
  have w: "wire_frame p =
             [SOF, lo, hi, crc8_compute [SOF, lo, hi] 3 CRC8_INIT CRC8_POLY, SOD] @ p
             @ [crc8_compute (SOD # p) (length p + 1) CRC8_INIT CRC8_POLY, EOF_byte]"
    by (simp add: wire_frame_def Let_def lo_def hi_def L_def)
  have run: "link_feed_loop (P, q) (wire_frame p) =
            Some (rpc_link_reset_parser ?P6,
               q\<lparr> q_items := q_items q @
                      [\<lparr> lp_payload = p @ replicate (MAX_PAYLOAD_SIZE - length p) 0,
                         lp_payload_len = length p \<rparr>] \<rparr>)"
    unfolding w by (simp only: feed_loop_append hd pl tr option.case)
  have fin: "P_st (rpc_link_reset_parser ?P6) = ST_WAIT_SOF
         \<and> P_payload_pos (rpc_link_reset_parser ?P6) = 0
         \<and> P_length (rpc_link_reset_parser ?P6) = 0
         \<and> length (P_hdr (rpc_link_reset_parser ?P6)) = 3
         \<and> length (P_payload (rpc_link_reset_parser ?P6)) = MAX_PAYLOAD_SIZE"
    using assms(2,5) by (simp add: rpc_link_reset_parser_def)
  from run fin show ?thesis by blast
qed

text \<open>
  Claim C2. For every payload of a length within MIN_PAYLOAD_SIZE .. MAX_PAYLOAD_SIZE,
  \<open>rpc_link_build_frame\<close> submits a frame, and feeding that frame, cut into chunks in any
  way (one byte at a time included), to a parser in WAIT_SOF adds exactly one payload to the
  link-to-transport queue (which has room for it), equal to the input byte for byte, and
  leaves the parser in WAIT_SOF.
\<close>

theorem link_frame_round_trip:
  assumes "MIN_PAYLOAD_SIZE \<le> length pl" and "length pl \<le> MAX_PAYLOAD_SIZE"
    and "P_st P = ST_WAIT_SOF" and "length (P_hdr P) = 3"
    and "length (P_payload P) = MAX_PAYLOAD_SIZE"
    and "length (q_items q) \<noteq> q_capacity q"
  shows "\<exists>frame. snd (rpc_link_build_frame (Some pl) (length pl) phy_send) = Some frame
           \<and> (\<forall>chunks. concat chunks = frame \<longrightarrow>
                (\<exists>P' lp. feed_chunks (P, q) chunks
                            = Some (P', q\<lparr> q_items := q_items q @ [lp] \<rparr>)
                   \<and> P_st P' = ST_WAIT_SOF
                   \<and> lp_payload_len lp = length pl
                   \<and> take (lp_payload_len lp) (lp_payload lp) = pl))"
proof -
  have b: "snd (rpc_link_build_frame (Some pl) (length pl) phy_send) = Some (wire_frame pl)"
    using build_frame_wire [OF assms(1,2), of pl phy_send] by simp
  from feed_wire_frame [OF assms]
  obtain P' where run: "link_feed_loop (P, q) (wire_frame pl) =
           Some (P', q\<lparr> q_items := q_items q @
                      [\<lparr> lp_payload = pl @ replicate (MAX_PAYLOAD_SIZE - length pl) 0,
                         lp_payload_len = length pl \<rparr>] \<rparr>)"
    and st: "P_st P' = ST_WAIT_SOF" by blast
  have "\<forall>chunks. concat chunks = wire_frame pl \<longrightarrow>
                (\<exists>P' lp. feed_chunks (P, q) chunks
                            = Some (P', q\<lparr> q_items := q_items q @ [lp] \<rparr>)
                   \<and> P_st P' = ST_WAIT_SOF
                   \<and> lp_payload_len lp = length pl
                   \<and> take (lp_payload_len lp) (lp_payload lp) = pl)"
  proof (intro allI impI)
    fix chunks :: "u8 list list"
    assume c: "concat chunks = wire_frame pl"
    let ?lp = "\<lparr> lp_payload = pl @ replicate (MAX_PAYLOAD_SIZE - length pl) 0,
                  lp_payload_len = length pl \<rparr>"
    have "feed_chunks (P, q) chunks = Some (P', q\<lparr> q_items := q_items q @ [?lp] \<rparr>)"
      using run c by (simp add: feed_chunks_concat)
    moreover have "lp_payload_len ?lp = length pl" by simp
    moreover have "take (lp_payload_len ?lp) (lp_payload ?lp) = pl" by simp
    ultimately show "\<exists>P' lp. feed_chunks (P, q) chunks
                            = Some (P', q\<lparr> q_items := q_items q @ [lp] \<rparr>)
                   \<and> P_st P' = ST_WAIT_SOF
                   \<and> lp_payload_len lp = length pl
                   \<and> take (lp_payload_len lp) (lp_payload lp) = pl"
      using st by blast
  qed
  with b show ?thesis by blast
qed

theorem link_frame_round_trip_witness:
  "MIN_PAYLOAD_SIZE \<le> length ex_payload \<and> length ex_payload \<le> MAX_PAYLOAD_SIZE
   \<and> P_st rpc_link_init = ST_WAIT_SOF \<and> length (P_hdr rpc_link_init) = 3
   \<and> length (P_payload rpc_link_init) = MAX_PAYLOAD_SIZE
   \<and> length (q_items ex_queue) \<noteq> q_capacity ex_queue
   \<and> (\<exists>frame. snd (rpc_link_build_frame (Some ex_payload) (length ex_payload)
                      (\<lambda>bs. int (length bs))) = Some frame
         \<and> concat (map (\<lambda>b. [b]) frame) = frame
         \<and> (\<exists>P' lp. feed_chunks (rpc_link_init, ex_queue) (map (\<lambda>b. [b]) frame)
                        = Some (P', ex_queue\<lparr> q_items := q_items ex_queue @ [lp] \<rparr>)
               \<and> P_st P' = ST_WAIT_SOF
               \<and> lp_payload_len lp = length ex_payload
               \<and> take (lp_payload_len lp) (lp_payload lp) = ex_payload))"
proof -
  have h1: "MIN_PAYLOAD_SIZE \<le> length ex_payload" by code_simp
  have h2: "length ex_payload \<le> MAX_PAYLOAD_SIZE" by code_simp
  have h3: "P_st rpc_link_init = ST_WAIT_SOF" by code_simp
  have h4: "length (P_hdr rpc_link_init) = 3" by code_simp
  have h5: "length (P_payload rpc_link_init) = MAX_PAYLOAD_SIZE" by code_simp
  have h6: "length (q_items ex_queue) \<noteq> q_capacity ex_queue" by code_simp
  have c: "\<And>frame :: u8 list. concat (map (\<lambda>b. [b]) frame) = frame"
    by (induct_tac frame) simp_all
  from link_frame_round_trip [OF h1 h2 h3 h4 h5 h6, of "\<lambda>bs. int (length bs)"]
  obtain frame where
    b: "snd (rpc_link_build_frame (Some ex_payload) (length ex_payload)
               (\<lambda>bs. int (length bs))) = Some frame"
    and f: "\<forall>chunks. concat chunks = frame \<longrightarrow>
                (\<exists>P' lp. feed_chunks (rpc_link_init, ex_queue) chunks
                            = Some (P', ex_queue\<lparr> q_items := q_items ex_queue @ [lp] \<rparr>)
                   \<and> P_st P' = ST_WAIT_SOF
                   \<and> lp_payload_len lp = length ex_payload
                   \<and> take (lp_payload_len lp) (lp_payload lp) = ex_payload)"
    by blast
  from f c [of frame]
  have "\<exists>P' lp. feed_chunks (rpc_link_init, ex_queue) (map (\<lambda>b. [b]) frame)
                        = Some (P', ex_queue\<lparr> q_items := q_items ex_queue @ [lp] \<rparr>)
               \<and> P_st P' = ST_WAIT_SOF
               \<and> lp_payload_len lp = length ex_payload
               \<and> take (lp_payload_len lp) (lp_payload lp) = ex_payload" by blast
  with b c [of frame] h1 h2 h3 h4 h5 h6 show ?thesis by blast
qed

lemma parser_inv_init: "parser_inv rpc_link_init"
  by (simp add: parser_inv_def rpc_link_init_def)

lemma parser_inv_reset: "parser_inv P \<Longrightarrow> parser_inv (rpc_link_reset_parser P)"
  by (simp add: parser_inv_def rpc_link_reset_parser_def)

lemma feed_byte_total:
  assumes "parser_inv P"
  shows "\<exists>P' q'. link_feed_byte (P, q) b = Some (P', q') \<and> parser_inv P'"
proof (cases "P_st P")
  case ST_READ_PAYLOAD
  with assms show ?thesis
    by (auto simp: link_feed_byte_def Let_def parser_inv_def rpc_link_reset_parser_def)
next
  case ST_WAIT_EOF
  with assms show ?thesis
    by (auto simp: link_feed_byte_def Let_def parser_inv_def rpc_link_reset_parser_def)
qed (use assms in \<open>auto simp: link_feed_byte_def Let_def parser_inv_def
       rpc_link_reset_parser_def\<close>)

lemma feed_loop_total:
  "parser_inv P \<Longrightarrow> \<exists>P' q'. link_feed_loop (P, q) bs = Some (P', q') \<and> parser_inv P'"
proof (induction bs arbitrary: P q)
  case Nil
  then show ?case by simp
next
  case (Cons b bs)
  from feed_byte_total [OF Cons.prems, of q b]
  obtain P1 q1 where s: "link_feed_byte (P, q) b = Some (P1, q1)" and i: "parser_inv P1"
    by blast
  from Cons.IH [OF i, of q1] s show ?case by simp
qed

lemma pktcrc_tmp:
  assumes "parser_inv P"
  shows "crc8_compute
           (memcpy_at ((replicate (MAX_PAYLOAD_SIZE + 1) 0)[0 := SOD]) 1 (P_payload P)
              (P_payload_pos P)) (P_payload_pos P + 1) CRC8_INIT CRC8_POLY
         = crc8_compute (SOD # P_payload P) (P_payload_pos P + 1) CRC8_INIT CRC8_POLY"
  using assms by (simp add: crc8_compute_def memcpy_at_def parser_inv_def)

lemma feed_byte_resync:
  assumes "parser_inv P" and "validation_failure P b"
  shows "link_feed_byte (P, q) b = Some (rpc_link_reset_parser (P\<lparr> P_hdr := (if P_st P = ST_READ_LEN2 then (P_hdr P)[2 := b] else P_hdr P) \<rparr>), q)"
proof (cases "P_st P")
  case ST_READ_LEN2
  have "(P_hdr P)[2 := b] ! 2 = b" "(P_hdr P)[2 := b] ! 1 = P_hdr P ! 1"
    using assms(1) by (simp_all add: parser_inv_def)
  with assms ST_READ_LEN2 show ?thesis
    by (simp add: link_feed_byte_def validation_failure_def Let_def rpc_link_reset_parser_def)
next
  case ST_READ_PKTCRC
  with assms pktcrc_tmp [OF assms(1)] show ?thesis
    by (simp add: link_feed_byte_def validation_failure_def Let_def parser_inv_def)
qed (use assms in \<open>auto simp: link_feed_byte_def validation_failure_def Let_def\<close>)

lemma feed_byte_garbage:
  "P_st P = ST_WAIT_SOF \<Longrightarrow> b \<noteq> SOF \<Longrightarrow> link_feed_byte (P, q) b = Some (P, q)"
  by (simp add: link_feed_byte_def)

text \<open>
  Claim C3. From the initial parser and for every input, cut into any chunks,
  \<open>rpc_link_feed_bytes\<close> returns (no copy runs past its buffer), and in the state reached
  every further byte is processed; when that byte is a validation failure the parser is back
  in WAIT_SOF with position and length cleared and the queue is as before; a byte other than
  SOF in WAIT_SOF leaves parser and queue unchanged.
\<close>

theorem parser_resync:
  "\<exists>P q. feed_chunks (rpc_link_init, q0) chunks = Some (P, q)
     \<and> (\<forall>b. \<exists>P' q'. rpc_link_feed_bytes (P, q) [b] 1 = Some (P', q')
            \<and> (validation_failure P b \<longrightarrow>
                 P_st P' = ST_WAIT_SOF \<and> P_payload_pos P' = 0 \<and> P_length P' = 0 \<and> q' = q)
            \<and> (P_st P = ST_WAIT_SOF \<and> b \<noteq> SOF \<longrightarrow> P' = P \<and> q' = q))"
proof -
  from feed_loop_total [OF parser_inv_init, of q0 "concat chunks"]
  obtain P q where run: "feed_chunks (rpc_link_init, q0) chunks = Some (P, q)"
    and inv: "parser_inv P" by (auto simp: feed_chunks_concat)
  have "\<forall>b. \<exists>P' q'. rpc_link_feed_bytes (P, q) [b] 1 = Some (P', q')
            \<and> (validation_failure P b \<longrightarrow>
                 P_st P' = ST_WAIT_SOF \<and> P_payload_pos P' = 0 \<and> P_length P' = 0 \<and> q' = q)
            \<and> (P_st P = ST_WAIT_SOF \<and> b \<noteq> SOF \<longrightarrow> P' = P \<and> q' = q)"
  proof
    fix b
    from feed_byte_total [OF inv, of q b]
    obtain P' q' where s: "link_feed_byte (P, q) b = Some (P', q')" by blast
    have one: "rpc_link_feed_bytes (P, q) [b] 1 = Some (P', q')"
      using s by (simp add: rpc_link_feed_bytes_def)
    have r: "validation_failure P b \<longrightarrow>
                 P_st P' = ST_WAIT_SOF \<and> P_payload_pos P' = 0 \<and> P_length P' = 0 \<and> q' = q"
      using feed_byte_resync [OF inv, of b q] s
      by (auto simp: rpc_link_reset_parser_def)
    have g: "P_st P = ST_WAIT_SOF \<and> b \<noteq> SOF \<longrightarrow> P' = P \<and> q' = q"
      using feed_byte_garbage [of P b q] s by auto
    from one r g
    show "\<exists>P' q'. rpc_link_feed_bytes (P, q) [b] 1 = Some (P', q')
            \<and> (validation_failure P b \<longrightarrow>
                 P_st P' = ST_WAIT_SOF \<and> P_payload_pos P' = 0 \<and> P_length P' = 0 \<and> q' = q)
            \<and> (P_st P = ST_WAIT_SOF \<and> b \<noteq> SOF \<longrightarrow> P' = P \<and> q' = q)" by blast
  qed
  with run show ?thesis by blast
qed

theorem parser_resync_witness:
  "(\<exists>P q P' q'. feed_chunks (rpc_link_init, ex_queue) [[SOF], [0]] = Some (P, q)
       \<and> validation_failure P 0
       \<and> rpc_link_feed_bytes (P, q) [0] 1 = Some (P', q')
       \<and> P_st P' = ST_WAIT_SOF \<and> P_payload_pos P' = 0 \<and> P_length P' = 0 \<and> q' = q)
   \<and> (\<exists>P q P' q'. feed_chunks (rpc_link_init, ex_queue) [take 3 ex_frame] = Some (P, q)
       \<and> validation_failure P 0
       \<and> rpc_link_feed_bytes (P, q) [0] 1 = Some (P', q')
       \<and> P_st P' = ST_WAIT_SOF \<and> P_payload_pos P' = 0 \<and> P_length P' = 0 \<and> q' = q)
   \<and> (\<exists>P q P' q'. feed_chunks (rpc_link_init, ex_queue) [take 10 ex_frame] = Some (P, q)
       \<and> validation_failure P 0
       \<and> rpc_link_feed_bytes (P, q) [0] 1 = Some (P', q')
       \<and> P_st P' = ST_WAIT_SOF \<and> P_payload_pos P' = 0 \<and> P_length P' = 0 \<and> q' = q)
   \<and> (\<exists>P q P' q'. feed_chunks (rpc_link_init, ex_queue) [] = Some (P, q)
       \<and> P_st P = ST_WAIT_SOF \<and> (0 :: u8) \<noteq> SOF
       \<and> rpc_link_feed_bytes (P, q) [0] 1 = Some (P', q')
       \<and> P' = P \<and> q' = q)"
proof -
  have A: "\<exists>P q P' q'. feed_chunks (rpc_link_init, ex_queue) cs = Some (P, q)
       \<and> validation_failure P b
       \<and> rpc_link_feed_bytes (P, q) [b] 1 = Some (P', q')
       \<and> P_st P' = ST_WAIT_SOF \<and> P_payload_pos P' = 0 \<and> P_length P' = 0 \<and> q' = q"
    if v: "validation_failure (fst (the (feed_chunks (rpc_link_init, ex_queue) cs))) b"
    for cs b
  proof -
    from parser_resync [of ex_queue cs]
    obtain P q where run: "feed_chunks (rpc_link_init, ex_queue) cs = Some (P, q)"
      and al: "\<forall>b. \<exists>P' q'. rpc_link_feed_bytes (P, q) [b] 1 = Some (P', q')
            \<and> (validation_failure P b \<longrightarrow>
                 P_st P' = ST_WAIT_SOF \<and> P_payload_pos P' = 0 \<and> P_length P' = 0 \<and> q' = q)
            \<and> (P_st P = ST_WAIT_SOF \<and> b \<noteq> SOF \<longrightarrow> P' = P \<and> q' = q)" by blast
    from v run have vf: "validation_failure P b" by simp
    from al vf run show ?thesis by blast
  qed
  have B: "\<exists>P q P' q'. feed_chunks (rpc_link_init, ex_queue) [] = Some (P, q)
       \<and> P_st P = ST_WAIT_SOF \<and> (0 :: u8) \<noteq> SOF
       \<and> rpc_link_feed_bytes (P, q) [0] 1 = Some (P', q')
       \<and> P' = P \<and> q' = q"
  proof -
    from parser_resync [of ex_queue "[]"]
    obtain P q where run: "feed_chunks (rpc_link_init, ex_queue) [] = Some (P, q)"
      and al: "\<forall>b. \<exists>P' q'. rpc_link_feed_bytes (P, q) [b] 1 = Some (P', q')
            \<and> (validation_failure P b \<longrightarrow>
                 P_st P' = ST_WAIT_SOF \<and> P_payload_pos P' = 0 \<and> P_length P' = 0 \<and> q' = q)
            \<and> (P_st P = ST_WAIT_SOF \<and> b \<noteq> SOF \<longrightarrow> P' = P \<and> q' = q)" by blast
    have "P_st (fst (the (feed_chunks (rpc_link_init, ex_queue) []))) = ST_WAIT_SOF"
      by code_simp
    with run have s: "P_st P = ST_WAIT_SOF" by simp
    have n: "(0 :: u8) \<noteq> SOF" by code_simp
    from al s n run show ?thesis by blast
  qed
  have v1: "validation_failure (fst (the (feed_chunks (rpc_link_init, ex_queue) [[SOF], [0]]))) 0"
    by code_simp
  have v2: "validation_failure (fst (the (feed_chunks (rpc_link_init, ex_queue)
              [take 3 ex_frame]))) 0"
    by code_simp
  have v3: "validation_failure (fst (the (feed_chunks (rpc_link_init, ex_queue)
              [take 10 ex_frame]))) 0"
    by code_simp
  from A [OF v1] A [OF v2] A [OF v3] B show ?thesis by blast
qed

section \<open>The waiter table\<close>

lemma unat_u8_bound: "unat (s :: u8) \<le> 255"
proof -
  have "unat s < 2 ^ LENGTH(8)" by (rule unsigned_less)
  then show ?thesis by simp
qed

lemma seq_succ_unat:
  assumes "s \<noteq> 0"
  shows "unat (seq_succ s) = unat s mod 255 + 1"
proof (cases "s + 1 = 0")
  case True
  then have "s = - 1" by (simp add: eq_neg_iff_add_eq_0)
  then have "s = 255" by simp
  then show ?thesis by (simp add: seq_succ_def)
next
  case False
  then have "1 + s \<noteq> 0" by (simp add: add.commute)
  then have u: "unat (1 + s) = Suc (unat s)" by (rule unatSuc)
  have "unat (1 + s) \<le> 255" by (rule unat_u8_bound)
  with u have "unat s < 255" by simp
  with u False show ?thesis by (simp add: seq_succ_def add.commute)
qed

lemma seq_succ_nonzero: "seq_succ s \<noteq> 0"
  by (simp add: seq_succ_def)

lemma upcoming_unat:
  "s \<noteq> 0 \<Longrightarrow> x \<in> set (upcoming s k) \<Longrightarrow> \<exists>j<k. unat x = (unat s - 1 + j) mod 255 + 1"
proof (induction k arbitrary: s)
  case 0
  then show ?case by simp
next
  case (Suc k)
  have pos: "0 < unat s" using Suc.prems(1) by (simp add: unat_gt_0)
  have le: "unat s \<le> 255" by (rule unat_u8_bound)
  show ?case
  proof (cases "x = s")
    case True
    have "unat x = (unat s - 1 + 0) mod 255 + 1" using True pos le by simp
    then show ?thesis by blast
  next
    case False
    with Suc.prems(2) have "x \<in> set (upcoming (seq_succ s) k)" by simp
    from Suc.IH [OF seq_succ_nonzero this]
    obtain j where j: "j < k" and e: "unat x = (unat (seq_succ s) - 1 + j) mod 255 + 1" by blast
    have "unat x = (unat s - 1 + Suc j) mod 255 + 1"
      using e pos by (simp add: seq_succ_unat [OF Suc.prems(1)] mod_add_left_eq)
    moreover have "Suc j < Suc k" using j by simp
    ultimately show ?thesis by blast
  qed
qed

lemma seq_not_upcoming:
  assumes "s \<noteq> 0" and "k \<le> 254"
  shows "s \<notin> set (upcoming (seq_succ s) k)"
proof
  assume "s \<in> set (upcoming (seq_succ s) k)"
  from upcoming_unat [OF seq_succ_nonzero this]
  obtain j where j: "j < k" and e: "unat s = (unat (seq_succ s) - 1 + j) mod 255 + 1" by blast
  have pos: "0 < unat s" using assms(1) by (simp add: unat_gt_0)
  have le: "unat s \<le> 255" by (rule unat_u8_bound)
  from e have eq: "unat s = (unat s mod 255 + j) mod 255 + 1"
    by (simp add: seq_succ_unat [OF assms(1)])
  have jl: "j < 254" using j assms(2) by simp
  show False
  proof (cases "unat s = 255")
    case True
    have "(0 + j) mod 255 = j" using jl by simp
    with eq True jl show False by simp
  next
    case False
    with le have lt: "unat s < 255" by simp
    then have m: "unat s mod 255 = unat s" by simp
    show False
    proof (cases "unat s + j < 255")
      case True
      then have "(unat s + j) mod 255 = unat s + j" by simp
      with eq m show False by simp
    next
      case False
      then have ge: "255 \<le> unat s + j" by simp
      have "unat s + j - 255 < 255" using lt jl by simp
      then have "(unat s + j) mod 255 = unat s + j - 255"
        using ge by (simp add: le_mod_geq)
      with eq m ge jl show False by simp
    qed
  qed
qed

lemma live_seqs_append: "live_seqs (xs @ ys) = live_seqs xs @ live_seqs ys"
  by (simp add: live_seqs_def)

lemma live_seqs_split:
  assumes "i < length tbl"
  shows "live_seqs tbl =
           live_seqs (take i tbl) @ (if w_in_use (tbl ! i) then [w_seq (tbl ! i)] else [])
             @ live_seqs (drop (Suc i) tbl)"
proof -
  have "tbl = take i tbl @ [tbl ! i] @ drop (Suc i) tbl"
    using assms by (simp add: id_take_nth_drop [symmetric])
  then have "live_seqs tbl = live_seqs (take i tbl @ [tbl ! i] @ drop (Suc i) tbl)" by simp
  then show ?thesis by (simp add: live_seqs_append) (simp add: live_seqs_def)
qed

lemma live_seqs_update:
  assumes "i < length tbl"
  shows "live_seqs (tbl[i := v]) =
           live_seqs (take i tbl) @ (if w_in_use v then [w_seq v] else [])
             @ live_seqs (drop (Suc i) tbl)"
proof -
  have "tbl[i := v] = take i tbl @ [v] @ drop (Suc i) tbl"
    using assms by (simp add: upd_conv_take_nth_drop)
  then show ?thesis by (simp add: live_seqs_append) (simp add: live_seqs_def)
qed

lemma free_live_seqs:
  "distinct (live_seqs (s_wait st)) \<Longrightarrow>
     distinct (live_seqs (s_wait (rpc_trans_free_waiter st (Some i))))
     \<and> set (live_seqs (s_wait (rpc_trans_free_waiter st (Some i)))) \<subseteq> set (live_seqs (s_wait st))"
proof (cases "i < length (s_wait st)")
  case True
  assume d: "distinct (live_seqs (s_wait st))"
  show ?thesis
    using d
    by (auto simp: rpc_trans_free_waiter_def live_seqs_update [OF True]
        live_seqs_split [OF True, of ] split: if_splits)
next
  case False
  assume "distinct (live_seqs (s_wait st))"
  moreover from False have "length (s_wait st) \<le> i" by simp
  ultimately show ?thesis by (simp add: rpc_trans_free_waiter_def list_update_beyond)
qed

lemma scan_free_not_in_use:
  "scan_free tbl j n = Some i \<Longrightarrow> \<not> w_in_use (tbl ! i)"
  by (induction n arbitrary: j) (auto split: if_splits)

lemma scan_free_finds:
  "j \<le> i \<Longrightarrow> i < j + n \<Longrightarrow> \<not> w_in_use (tbl ! i) \<Longrightarrow> \<exists>k. scan_free tbl j n = Some k"
proof (induction n arbitrary: j)
  case 0
  then show ?case by simp
next
  case (Suc n)
  show ?case
  proof (cases "w_in_use (tbl ! j)")
    case False
    then show ?thesis by simp
  next
    case True
    with Suc.prems have "Suc j \<le> i" by (cases "i = j") auto
    with Suc.IH [of "Suc j"] Suc.prems True show ?thesis by simp
  qed
qed

lemma alloc_live_seqs:
  assumes "distinct (live_seqs (s_wait st))" and "s_next_seq st \<notin> set (live_seqs (s_wait st))"
  shows "distinct (live_seqs (s_wait (snd (alloc_attempt st))))
         \<and> set (live_seqs (s_wait (snd (alloc_attempt st))))
             \<subseteq> insert (s_next_seq st) (set (live_seqs (s_wait st)))
         \<and> s_next_seq (snd (alloc_attempt st)) = seq_succ (s_next_seq st)"
proof (cases "scan_free (s_wait st) 0 REQ_TABLE_SIZE")
  case None
  with assms show ?thesis by (auto simp: alloc_attempt_def Let_def seq_succ_def)
next
  case (Some i)
  note nu = scan_free_not_in_use [OF Some]
  show ?thesis
  proof (cases "i < length (s_wait st)")
    case True
    show ?thesis
      using assms nu Some
      by (auto simp: alloc_attempt_def Let_def seq_succ_def live_seqs_update [OF True]
          live_seqs_split [OF True])
  next
    case False
    then have "length (s_wait st) \<le> i" by simp
    with assms Some show ?thesis
      by (auto simp: alloc_attempt_def Let_def seq_succ_def list_update_beyond)
  qed
qed

lemma waiter_run_unique:
  assumes "distinct (live_seqs (s_wait st))" and "s_next_seq st \<noteq> 0" and "k \<le> 255"
    and "set (live_seqs (s_wait st)) \<inter> set (upcoming (s_next_seq st) k) = {}"
    and "length (filter is_alloc evs) \<le> k"
  shows "distinct (live_seqs (s_wait (waiter_run st evs)))"
  using assms
proof (induction evs arbitrary: st k)
  case Nil
  then show ?case by simp
next
  case (Cons e evs)
  show ?case
  proof (cases e)
    case Alloc_attempt
    with Cons.prems(5) obtain k' where k: "k = Suc k'" by (cases k) auto
    let ?st' = "snd (alloc_attempt st)"
    have notin: "s_next_seq st \<notin> set (live_seqs (s_wait st))"
      using Cons.prems(4) k by auto
    from alloc_live_seqs [OF Cons.prems(1) notin]
    have d: "distinct (live_seqs (s_wait ?st'))"
      and sub: "set (live_seqs (s_wait ?st')) \<subseteq> insert (s_next_seq st) (set (live_seqs (s_wait st)))"
      and nx: "s_next_seq ?st' = seq_succ (s_next_seq st)" by auto
    have nz: "s_next_seq ?st' \<noteq> 0" using nx by (simp add: seq_succ_nonzero)
    have k'le: "k' \<le> 254" using Cons.prems(3) k by simp
    have new: "s_next_seq st \<notin> set (upcoming (seq_succ (s_next_seq st)) k')"
      by (rule seq_not_upcoming [OF Cons.prems(2) k'le])
    have old: "set (live_seqs (s_wait st)) \<inter> set (upcoming (seq_succ (s_next_seq st)) k') = {}"
      using Cons.prems(4) k by auto
    have disj: "set (live_seqs (s_wait ?st')) \<inter> set (upcoming (s_next_seq ?st') k') = {}"
      using sub new old nx by auto
    have cnt: "length (filter is_alloc evs) \<le> k'"
      using Cons.prems(5) k Alloc_attempt by simp
    have "k' \<le> 255" using k'le by simp
    from Cons.IH [OF d nz this disj cnt] Alloc_attempt show ?thesis by simp
  next
    case (Free_waiter i)
    let ?st' = "rpc_trans_free_waiter st (Some i)"
    from free_live_seqs [OF Cons.prems(1), of i]
    have d: "distinct (live_seqs (s_wait ?st'))"
      and sub: "set (live_seqs (s_wait ?st')) \<subseteq> set (live_seqs (s_wait st))" by auto
    have nx: "s_next_seq ?st' = s_next_seq st" by (simp add: rpc_trans_free_waiter_def)
    have disj: "set (live_seqs (s_wait ?st')) \<inter> set (upcoming (s_next_seq ?st') k) = {}"
      using sub Cons.prems(4) nx by auto
    have cnt: "length (filter is_alloc evs) \<le> k"
      using Cons.prems(5) Free_waiter by simp
    from Cons.IH [OF d _ Cons.prems(3) disj cnt] Cons.prems(2) nx Free_waiter
    show ?thesis by simp
  qed
qed

text \<open>
  Claim C4, as the code has it. The allocator hands out the counter value without looking at
  the live waiters, so uniqueness holds only while the counter does not come back to a live
  sequence: from a table whose live sequences are pairwise distinct and none of which is
  among the next \<open>k \<le> 255\<close> values of the counter, every interleaving of allocation
  attempts and releases with at most \<open>k\<close> allocation attempts leaves the live sequences
  pairwise distinct. From the initial state this covers the first 255 attempts.
\<close>

theorem waiter_seq_unique_window:
  assumes "live_seq_unique (s_wait st)" and "s_next_seq st \<noteq> 0" and "k \<le> 255"
    and "\<forall>s \<in> set (live_seqs (s_wait st)). s \<notin> set (upcoming (s_next_seq st) k)"
    and "length (filter is_alloc evs) \<le> k"
  shows "live_seq_unique (s_wait (waiter_run st evs))"
proof -
  have d: "distinct (live_seqs (s_wait st))"
    using assms(1) by (simp add: live_seq_unique_def)
  have "set (live_seqs (s_wait st)) \<inter> set (upcoming (s_next_seq st) k) = {}"
    using assms(4) by auto
  from waiter_run_unique [OF d assms(2,3) this assms(5)] show ?thesis
    by (simp add: live_seq_unique_def)
qed

theorem waiter_seq_unique_window_witness:
  "live_seq_unique (s_wait rpc_trans_init) \<and> s_next_seq rpc_trans_init \<noteq> 0
   \<and> (255 :: nat) \<le> 255
   \<and> live_seqs (s_wait rpc_trans_init) = []
   \<and> length (filter is_alloc [Alloc_attempt, Alloc_attempt, Free_waiter 0, Alloc_attempt]) \<le> 255
   \<and> live_seqs (s_wait (waiter_run rpc_trans_init
         [Alloc_attempt, Alloc_attempt, Free_waiter 0, Alloc_attempt])) = [3, 2]
   \<and> live_seq_unique (s_wait (waiter_run rpc_trans_init
         [Alloc_attempt, Alloc_attempt, Free_waiter 0, Alloc_attempt]))"
proof -
  have h1: "live_seq_unique (s_wait rpc_trans_init)" by code_simp
  have h2: "s_next_seq rpc_trans_init \<noteq> 0" by code_simp
  have h3: "(255 :: nat) \<le> 255" by simp
  have l: "live_seqs (s_wait rpc_trans_init) = []" by code_simp
  have h4: "\<forall>s \<in> set (live_seqs (s_wait rpc_trans_init)).
         s \<notin> set (upcoming (s_next_seq rpc_trans_init) 255)" by (simp add: l)
  have h5: "length (filter is_alloc [Alloc_attempt, Alloc_attempt, Free_waiter 0, Alloc_attempt])
              \<le> 255" by simp
  have v: "live_seqs (s_wait (waiter_run rpc_trans_init
         [Alloc_attempt, Alloc_attempt, Free_waiter 0, Alloc_attempt])) = [3, 2]" by code_simp
  from waiter_seq_unique_window [OF h1 h2 h3 h4 h5] h1 h2 h3 l h5 v show ?thesis by blast
qed

text \<open>
  Claim C4 as stated fails with 256 allocation attempts: the waiter of slot 0 still holds sequence 1
  when the counter has wrapped, and slot 1 receives sequence 1 as well.
\<close>

theorem waiter_seq_unique_counterexample:
  "length (filter is_alloc collide_trace) = 256
   \<and> live_seqs (s_wait (waiter_run rpc_trans_init collide_trace)) = [1, 1]
   \<and> \<not> live_seq_unique (s_wait (waiter_run rpc_trans_init collide_trace))"
  by code_simp

section \<open>Completion, timeout and waiting time of a request\<close>

lemma length_s_wait_handle [simp]:
  "length (s_wait (rpc_trans_handle_incoming st p n)) = length (s_wait st)"
  by (simp add: rpc_trans_handle_incoming_def Let_def split: option.splits)

lemma length_s_wait_worker_run [simp]:
  "length (s_wait (trans_worker_run st ms)) = length (s_wait st)"
  by (induction ms arbitrary: st) (simp_all add: trans_worker_step_def)

lemma qTransToLink_handle [simp]:
  "qTransToLink (rpc_trans_handle_incoming st p n) = qTransToLink st"
  by (simp add: rpc_trans_handle_incoming_def Let_def split: option.splits)

lemma qTransToLink_worker_run [simp]:
  "qTransToLink (trans_worker_run st ms) = qTransToLink st"
  by (induction ms arbitrary: st) (simp_all add: trans_worker_step_def)

lemma qTransToLink_wait [simp]:
  "qTransToLink (snd (rpc_trans_request_wait st i t inc)) = qTransToLink st"
  by (simp add: rpc_trans_request_wait_def Let_def rpc_trans_free_waiter_def)

lemma rr_wait_wait:
  "rr_wait (fst (rpc_trans_request_wait st i t inc)) =
     Some (if t = 0 then REQ_TIMEOUT_MS_DEFAULT else t,
           w_done (s_wait (trans_worker_run st inc) ! i))"
  by (simp add: rpc_trans_request_wait_def Let_def os_sem_take_def)

lemma map_update_same: "f v = f (xs ! i) \<Longrightarrow> map f (xs[i := v]) = map f xs"
  by (metis list_update_id map_update)

lemma scan_free_bound: "scan_free tbl j n = Some i \<Longrightarrow> j \<le> i \<and> i < j + n"
proof (induction n arbitrary: j)
  case 0
  then show ?case by simp
next
  case (Suc n)
  show ?case
  proof (cases "w_in_use (tbl ! j)")
    case False
    with Suc.prems show ?thesis by simp
  next
    case True
    with Suc.prems have "scan_free tbl (Suc j) n = Some i" by simp
    from Suc.IH [OF this] show ?thesis by simp
  qed
qed

lemma alloc_attempt_none: "alloc_attempt st = (None, st') \<Longrightarrow> s_wait st' = s_wait st"
  by (auto simp: alloc_attempt_def Let_def split: option.splits)

lemma alloc_attempt_some:
  assumes "alloc_attempt st = (Some (i, s), st')"
  shows "i < REQ_TABLE_SIZE \<and> \<not> w_in_use (s_wait st ! i)
         \<and> s_wait st' = (s_wait st)[i := (s_wait st ! i)\<lparr> w_in_use := True, w_seq := s \<rparr>]"
proof -
  from assms obtain k where k: "scan_free (s_wait st) 0 REQ_TABLE_SIZE = Some k"
    by (auto simp: alloc_attempt_def Let_def split: option.splits)
  with assms have ik: "i = k" and sq: "s = s_next_seq st"
    by (auto simp: alloc_attempt_def Let_def)
  from scan_free_bound [OF k] scan_free_not_in_use [OF k] assms k ik sq
  show ?thesis by (auto simp: alloc_attempt_def Let_def)
qed

lemma alloc_loop_table:
  "alloc_loop n st = (Some (i, s), st') \<Longrightarrow>
     i < REQ_TABLE_SIZE \<and> \<not> w_in_use (s_wait st ! i)
     \<and> map w_in_use (s_wait st') = (map w_in_use (s_wait st))[i := True]"
proof (induction n arbitrary: st)
  case 0
  then show ?case by simp
next
  case (Suc n)
  obtain r st1 where a: "alloc_attempt st = (r, st1)" by (cases "alloc_attempt st")
  show ?case
  proof (cases r)
    case None
    with a Suc.prems have "alloc_loop n st1 = (Some (i, s), st')" by simp
    from Suc.IH [OF this] alloc_attempt_none [of st st1] a None show ?thesis by simp
  next
    case (Some x)
    with a Suc.prems have "alloc_attempt st = (Some (i, s), st')" by auto
    from alloc_attempt_some [OF this] show ?thesis by (simp add: map_update)
  qed
qed

lemma in_use_completion: "w_in_use (last (waiter_completion w t a l)) = w_in_use w"
  by (simp add: waiter_completion_def Let_def split: option.splits)

lemma in_use_handle:
  "map w_in_use (s_wait (rpc_trans_handle_incoming st p n)) = map w_in_use (s_wait st)"
  by (simp add: rpc_trans_handle_incoming_def Let_def map_update_same in_use_completion
      split: option.splits)

lemma in_use_worker_run:
  "map w_in_use (s_wait (trans_worker_run st ms)) = map w_in_use (s_wait st)"
  by (induction ms arbitrary: st) (simp_all add: trans_worker_step_def in_use_handle)

lemma wait_timeout_flags:
  assumes "rr_wait (fst (rpc_trans_request_wait st i t inc)) = Some (d, False)"
  shows "rr_rc (fst (rpc_trans_request_wait st i t inc)) = RPC_ERROR
         \<and> map w_in_use (s_wait (snd (rpc_trans_request_wait st i t inc)))
             = (map w_in_use (s_wait st))[i := False]"
proof -
  from assms have nd: "\<not> w_done (s_wait (trans_worker_run st inc) ! i)"
    by (simp add: rr_wait_wait)
  then have rc: "rr_rc (fst (rpc_trans_request_wait st i t inc)) = RPC_ERROR"
    by (simp add: rpc_trans_request_wait_def Let_def os_sem_take_def)
  have "map w_in_use (s_wait (snd (rpc_trans_request_wait st i t inc)))
          = (map w_in_use (s_wait (trans_worker_run st inc)))[i := False]"
    using nd
    by (simp add: rpc_trans_request_wait_def Let_def os_sem_take_def rpc_trans_free_waiter_def
        map_update)
  with rc show ?thesis by (simp add: in_use_worker_run)
qed

lemma request_reaches_wait:
  assumes "rr_wait (fst (rpc_trans_request st name args al rb rl t inc)) = Some x"
  shows "\<exists>i seq st1 st2. rpc_trans_alloc_waiter st = (Some (i, seq), st1)
           \<and> map w_in_use (s_wait st2) = map w_in_use (s_wait st1)
           \<and> rpc_trans_request st name args al rb rl t inc = rpc_trans_request_wait st2 i t inc"
proof -
  from assms obtain nm where nm: "name = Some nm"
    by (cases name) (simp_all add: rpc_trans_request_def)
  from assms nm obtain b l where bl: "rb = Some b" "rl = Some l"
    by (cases rb; cases rl) (simp_all add: rpc_trans_request_def Let_def split: if_splits)
  obtain r st1 where al: "rpc_trans_alloc_waiter st = (r, st1)"
    by (cases "rpc_trans_alloc_waiter st")
  from assms nm bl al obtain i seq where r: "r = Some (i, seq)"
    by (cases r) (auto simp: rpc_trans_request_def Let_def split: if_splits)
  let ?st2 = "st1\<lparr> s_wait := (s_wait st1)
                [i := (s_wait st1 ! i)\<lparr> w_resp_buf := rb, w_resp_len := rl,
                                          w_resp_buf_cap := l \<rparr>] \<rparr>"
  obtain plen out where bd: "rpc_trans_build_msg MSG_REQ seq name args al
                               (Some (replicate MAX_PAYLOAD_SIZE 0)) MAX_PAYLOAD_SIZE = (plen, out)"
    by (cases "rpc_trans_build_msg MSG_REQ seq name args al
                 (Some (replicate MAX_PAYLOAD_SIZE 0)) MAX_PAYLOAD_SIZE")
  from assms nm bl al r bd obtain ob where ob: "out = Some ob"
    by (cases out) (auto simp: rpc_trans_request_def Let_def split: if_splits)
  let ?sent = "os_queue_send (qTransToLink ?st2) \<lparr> lp_payload = ob, lp_payload_len = plen \<rparr>
                 OS_WAIT_FOREVER"
  let ?st3 = "?st2\<lparr> qTransToLink := snd ?sent \<rparr>"
  have eq: "rpc_trans_request st name args al rb rl t inc = rpc_trans_request_wait ?st3 i t inc"
    using assms nm bl al r bd ob
    by (auto simp: rpc_trans_request_def Let_def split: if_splits)
  have fl: "map w_in_use (s_wait ?st3) = map w_in_use (s_wait st1)"
    by (simp add: map_update_same)
  from al r fl eq show ?thesis by blast
qed

lemma find_waiter_loop_bound:
  "find_waiter_loop tbl seq j n ret = Some i \<Longrightarrow> ret = Some i \<or> (j \<le> i \<and> i < j + n)"
proof (induction n arbitrary: j ret)
  case 0
  then show ?case by simp
next
  case (Suc n)
  from Suc.IH [OF Suc.prems [simplified]] show ?case
    by (auto split: if_splits)
qed

lemma find_waiter_bound:
  "rpc_trans_find_waiter st seq = Some i \<Longrightarrow> i < REQ_TABLE_SIZE"
  using find_waiter_loop_bound [of "s_wait st" seq 0 REQ_TABLE_SIZE None i]
  by (simp add: rpc_trans_find_waiter_def)

lemma handle_incoming_completion:
  assumes "length (s_wait st) = REQ_TABLE_SIZE"
    and "rpc_trans_parse_msg p n = Some m"
    and "msg_type m = MSG_RESP \<or> msg_type m = MSG_ERR"
    and "rpc_trans_find_waiter st (msg_seq m) = Some i"
  shows "s_wait (rpc_trans_handle_incoming st p n) ! i =
           last (waiter_completion (s_wait st ! i) (msg_type m) (msg_args m) (msg_alen m))"
  using assms find_waiter_bound [OF assms(4)]
  by (auto simp: rpc_trans_handle_incoming_def)

lemma completion_overflow:
  assumes "w_resp_buf_cap w < alen" and "w_resp_len w = Some l"
  shows "last (waiter_completion w type args alen) =
           w\<lparr> w_result_code := RPC_ERROR_OVERFLOW, w_resp_len := Some 0, w_done := True \<rparr>"
  using assms by (simp add: waiter_completion_def Let_def os_sem_give_def)

lemma completion_fits:
  assumes "\<not> w_resp_buf_cap w < alen" and "w_resp_len w = Some l"
  shows "last (waiter_completion w type args alen) =
           w\<lparr> w_resp_buf := map_option (\<lambda>buf. memcpy_at buf 0 args (unat alen)) (w_resp_buf w),
              w_resp_len := Some alen,
              w_result_code := (if type = MSG_RESP then RPC_SUCCESS else RPC_ERROR),
              w_done := True \<rparr>"
  using assms
  by (cases "w_resp_buf w")
     (auto simp: waiter_completion_def Let_def os_sem_give_def memcpy_at_def word_greater_zero_iff)

lemma completion_order:
  assumes "\<not> w_resp_buf_cap w < alen"
  shows "\<exists>pre v. waiter_completion w type args alen = pre @ [v, v\<lparr> w_done := True \<rparr>]
           \<and> w_result_code v = (if type = MSG_RESP then RPC_SUCCESS else RPC_ERROR)
           \<and> w_done v = w_done w \<and> (\<forall>u \<in> set pre. w_done u = w_done w)"
proof -
  let ?w1 = "(case w_resp_buf w of
                    Some buf \<Rightarrow>
                      if alen > 0
                      then w\<lparr> w_resp_buf := Some (memcpy_at buf 0 args (unat alen)) \<rparr>
                      else w
                  | None \<Rightarrow> w)"
  let ?w2 = "(case w_resp_len ?w1 of None \<Rightarrow> ?w1 | Some l \<Rightarrow> ?w1\<lparr> w_resp_len := Some alen \<rparr>)"
  let ?w3 = "?w2\<lparr> w_result_code := (if type = MSG_RESP then RPC_SUCCESS else RPC_ERROR) \<rparr>"
  have tr: "waiter_completion w type args alen = [?w1, ?w2] @ [?w3, ?w3\<lparr> w_done := True \<rparr>]"
    using assms by (simp add: waiter_completion_def Let_def os_sem_give_def)
  have d1: "w_done ?w1 = w_done w" by (simp split: option.splits)
  have d2: "w_done ?w2 = w_done w" using d1 by (simp split: option.splits)
  have "w_result_code ?w3 = (if type = MSG_RESP then RPC_SUCCESS else RPC_ERROR)
        \<and> w_done ?w3 = w_done w \<and> (\<forall>u \<in> set [?w1, ?w2]. w_done u = w_done w)"
    using d1 d2 by simp
  with tr show ?thesis by blast
qed

lemma request_wait_given:
  assumes "i < length (s_wait st)" and "w_done (s_wait (trans_worker_run st inc) ! i)"
  shows "fst (rpc_trans_request_wait st i t inc) =
           \<lparr> rr_rc = w_result_code (s_wait (trans_worker_run st inc) ! i),
             rr_resp_buf = w_resp_buf (s_wait (trans_worker_run st inc) ! i),
             rr_resp_len = w_resp_len (s_wait (trans_worker_run st inc) ! i),
             rr_wait = Some (if t = 0 then REQ_TIMEOUT_MS_DEFAULT else t, True) \<rparr>"
  using assms by (simp add: rpc_trans_request_wait_def Let_def os_sem_take_def)

text \<open>
  Claim C5. For a RESP or ERR message that matches a live waiter (whose length pointer is
  set, as \<open>rpc_trans_request\<close> sets it): when the body is longer than the recorded capacity,
  the transport worker stores OVERFLOW as result code, sets \<open>*resp_len\<close> to 0, leaves the
  response buffer alone and gives the semaphore, and the request waiting on that slot returns
  RPC_ERROR_OVERFLOW with \<open>*resp_len = 0\<close>; when the body fits, it is copied to the start of
  the buffer, \<open>*resp_len\<close> is the body length, the result code is RPC_SUCCESS for RESP and
  RPC_ERROR for ERR, and the give of the semaphore is the last store, made when the result
  code is already in place.
\<close>

theorem completion_overflow_policy:
  assumes "length (s_wait st) = REQ_TABLE_SIZE"
    and "rpc_trans_parse_msg (Some (lp_payload lp)) (lp_payload_len lp) = Some m"
    and "msg_type m = MSG_RESP \<or> msg_type m = MSG_ERR"
    and "rpc_trans_find_waiter st (msg_seq m) = Some i"
    and "w_resp_len (s_wait st ! i) = Some l"
  shows "(w_resp_buf_cap (s_wait st ! i) < msg_alen m \<longrightarrow>
            s_wait (trans_worker_step st lp) ! i =
              (s_wait st ! i)\<lparr> w_result_code := RPC_ERROR_OVERFLOW, w_resp_len := Some 0,
                                w_done := True \<rparr>
            \<and> rr_rc (fst (rpc_trans_request_wait st i t [lp])) = RPC_ERROR_OVERFLOW
            \<and> rr_resp_len (fst (rpc_trans_request_wait st i t [lp])) = Some 0
            \<and> rr_resp_buf (fst (rpc_trans_request_wait st i t [lp])) = w_resp_buf (s_wait st ! i))
       \<and> (\<not> w_resp_buf_cap (s_wait st ! i) < msg_alen m \<longrightarrow>
            s_wait (trans_worker_step st lp) ! i =
              (s_wait st ! i)
                \<lparr> w_resp_buf := map_option (\<lambda>buf. memcpy_at buf 0 (msg_args m) (unat (msg_alen m)))
                                 (w_resp_buf (s_wait st ! i)),
                  w_resp_len := Some (msg_alen m),
                  w_result_code := (if msg_type m = MSG_RESP then RPC_SUCCESS else RPC_ERROR),
                  w_done := True \<rparr>
            \<and> rr_rc (fst (rpc_trans_request_wait st i t [lp])) =
                (if msg_type m = MSG_RESP then RPC_SUCCESS else RPC_ERROR)
            \<and> rr_resp_len (fst (rpc_trans_request_wait st i t [lp])) = Some (msg_alen m)
            \<and> (\<exists>pre v. waiter_completion (s_wait st ! i) (msg_type m) (msg_args m) (msg_alen m)
                          = pre @ [v, v\<lparr> w_done := True \<rparr>]
                  \<and> w_result_code v = (if msg_type m = MSG_RESP then RPC_SUCCESS else RPC_ERROR)
                  \<and> w_done v = w_done (s_wait st ! i)
                  \<and> (\<forall>u \<in> set pre. w_done u = w_done (s_wait st ! i))))"
proof -
  let ?w = "s_wait st ! i"
  have il: "i < length (s_wait st)"
    using find_waiter_bound [OF assms(4)] assms(1) by simp
  have step: "s_wait (trans_worker_step st lp) ! i =
                last (waiter_completion ?w (msg_type m) (msg_args m) (msg_alen m))"
    unfolding trans_worker_step_def
    by (rule handle_incoming_completion [OF assms(1-4)])
  have run: "trans_worker_run st [lp] = trans_worker_step st lp" by simp
  show ?thesis
  proof (cases "w_resp_buf_cap ?w < msg_alen m")
    case True
    have w': "s_wait (trans_worker_step st lp) ! i =
                ?w\<lparr> w_result_code := RPC_ERROR_OVERFLOW, w_resp_len := Some 0, w_done := True \<rparr>"
      using step completion_overflow [OF True assms(5)] by simp
    then have "w_done (s_wait (trans_worker_run st [lp]) ! i)" by simp
    from request_wait_given [OF il this, of t] w' True show ?thesis by simp
  next
    case False
    have w': "s_wait (trans_worker_step st lp) ! i =
                ?w\<lparr> w_resp_buf := map_option (\<lambda>buf. memcpy_at buf 0 (msg_args m) (unat (msg_alen m)))
                                 (w_resp_buf ?w),
                  w_resp_len := Some (msg_alen m),
                  w_result_code := (if msg_type m = MSG_RESP then RPC_SUCCESS else RPC_ERROR),
                  w_done := True \<rparr>"
      using step completion_fits [OF False assms(5)] by simp
    then have "w_done (s_wait (trans_worker_run st [lp]) ! i)" by simp
    from request_wait_given [OF il this, of t] w' False completion_order [OF False]
    show ?thesis by simp
  qed
qed

theorem completion_overflow_policy_witness:
  "length (s_wait (ex_state ex_small_waiter)) = REQ_TABLE_SIZE
   \<and> rpc_trans_parse_msg (Some (lp_payload ex_resp)) (lp_payload_len ex_resp) = Some ex_resp_msg
   \<and> rpc_trans_find_waiter (ex_state ex_small_waiter) (msg_seq ex_resp_msg) = Some 0
   \<and> w_resp_len (s_wait (ex_state ex_small_waiter) ! 0) = Some 2
   \<and> w_resp_buf_cap (s_wait (ex_state ex_small_waiter) ! 0) < msg_alen ex_resp_msg
   \<and> rr_rc (fst (rpc_trans_request_wait (ex_state ex_small_waiter) 0 1000 [ex_resp]))
       = RPC_ERROR_OVERFLOW
   \<and> rr_resp_len (fst (rpc_trans_request_wait (ex_state ex_small_waiter) 0 1000 [ex_resp]))
       = Some 0
   \<and> rr_resp_buf (fst (rpc_trans_request_wait (ex_state ex_small_waiter) 0 1000 [ex_resp]))
       = Some [0, 0]
   \<and> length (s_wait (ex_state ex_roomy_waiter)) = REQ_TABLE_SIZE
   \<and> rpc_trans_find_waiter (ex_state ex_roomy_waiter) (msg_seq ex_resp_msg) = Some 0
   \<and> w_resp_len (s_wait (ex_state ex_roomy_waiter) ! 0) = Some 64
   \<and> \<not> w_resp_buf_cap (s_wait (ex_state ex_roomy_waiter) ! 0) < msg_alen ex_resp_msg
   \<and> rr_rc (fst (rpc_trans_request_wait (ex_state ex_roomy_waiter) 0 1000 [ex_resp]))
       = RPC_SUCCESS
   \<and> rr_resp_len (fst (rpc_trans_request_wait (ex_state ex_roomy_waiter) 0 1000 [ex_resp]))
       = Some 3"
proof -
  have p: "rpc_trans_parse_msg (Some (lp_payload ex_resp)) (lp_payload_len ex_resp)
             = Some ex_resp_msg" by code_simp
  have t: "msg_type ex_resp_msg = MSG_RESP \<or> msg_type ex_resp_msg = MSG_ERR" by code_simp
  have a1: "length (s_wait (ex_state ex_small_waiter)) = REQ_TABLE_SIZE" by code_simp
  have a4: "rpc_trans_find_waiter (ex_state ex_small_waiter) (msg_seq ex_resp_msg) = Some 0"
    by code_simp
  have a5: "w_resp_len (s_wait (ex_state ex_small_waiter) ! 0) = Some 2" by code_simp
  have a6: "w_resp_buf_cap (s_wait (ex_state ex_small_waiter) ! 0) < msg_alen ex_resp_msg"
    by code_simp
  have a7: "w_resp_buf (s_wait (ex_state ex_small_waiter) ! 0) = Some [0, 0]" by code_simp
  have b1: "length (s_wait (ex_state ex_roomy_waiter)) = REQ_TABLE_SIZE" by code_simp
  have b4: "rpc_trans_find_waiter (ex_state ex_roomy_waiter) (msg_seq ex_resp_msg) = Some 0"
    by code_simp
  have b5: "w_resp_len (s_wait (ex_state ex_roomy_waiter) ! 0) = Some 64" by code_simp
  have b6: "\<not> w_resp_buf_cap (s_wait (ex_state ex_roomy_waiter) ! 0) < msg_alen ex_resp_msg"
    by code_simp
  have b7: "msg_type ex_resp_msg = MSG_RESP" "msg_alen ex_resp_msg = 3" by code_simp+
  from completion_overflow_policy [OF a1 p t a4 a5, of 1000] a6 a7
  have A: "rr_rc (fst (rpc_trans_request_wait (ex_state ex_small_waiter) 0 1000 [ex_resp]))
       = RPC_ERROR_OVERFLOW
   \<and> rr_resp_len (fst (rpc_trans_request_wait (ex_state ex_small_waiter) 0 1000 [ex_resp]))
       = Some 0
   \<and> rr_resp_buf (fst (rpc_trans_request_wait (ex_state ex_small_waiter) 0 1000 [ex_resp]))
       = Some [0, 0]" by simp
  from completion_overflow_policy [OF b1 p t b4 b5, of 1000] b6 b7
  have B: "rr_rc (fst (rpc_trans_request_wait (ex_state ex_roomy_waiter) 0 1000 [ex_resp]))
       = RPC_SUCCESS
   \<and> rr_resp_len (fst (rpc_trans_request_wait (ex_state ex_roomy_waiter) 0 1000 [ex_resp]))
       = Some 3" by simp
  from p a1 a4 a5 a6 A b1 b4 b5 b6 B show ?thesis by blast
qed

text \<open>
  Claim C6, as the code has it. When \<open>os_sem_take\<close> returns false in a call of
  \<open>rpc_request\<close> (the wait ended without the semaphore having been given), the call returns
  the generic code RPC_ERROR (there is no separate timeout code on this path), and the
  in-use flags of the waiter table are as before the call: the slot it had claimed is free
  again, so the next allocation attempt finds a free slot.
\<close>

theorem request_timeout_result:
  assumes "rr_wait (fst (rpc_request st name args args_len resp_buf resp_len timeout_ms incoming))
             = Some (d, False)"
  shows "rr_rc (fst (rpc_request st name args args_len resp_buf resp_len timeout_ms incoming))
           = RPC_ERROR
         \<and> map w_in_use
               (s_wait (snd (rpc_request st name args args_len resp_buf resp_len timeout_ms
                               incoming)))
             = map w_in_use (s_wait st)
         \<and> (length (s_wait st) = REQ_TABLE_SIZE \<longrightarrow>
              fst (alloc_attempt
                     (snd (rpc_request st name args args_len resp_buf resp_len timeout_ms
                             incoming))) \<noteq> None)"
proof -
  let ?r = "rpc_trans_request st name args args_len resp_buf resp_len timeout_ms incoming"
  have w: "rr_wait (fst ?r) = Some (d, False)" using assms by (simp add: rpc_request_def)
  from request_reaches_wait [OF w]
  obtain i seq st1 st2 where al: "rpc_trans_alloc_waiter st = (Some (i, seq), st1)"
    and fl: "map w_in_use (s_wait st2) = map w_in_use (s_wait st1)"
    and eq: "?r = rpc_trans_request_wait st2 i timeout_ms incoming" by blast
  from alloc_loop_table [of 255 st i seq st1] al
  have ib: "i < REQ_TABLE_SIZE" and nu: "\<not> w_in_use (s_wait st ! i)"
    and f1: "map w_in_use (s_wait st1) = (map w_in_use (s_wait st))[i := True]"
    by (simp_all add: rpc_trans_alloc_waiter_def)
  from wait_timeout_flags [of st2 i timeout_ms incoming d] w eq
  have rc: "rr_rc (fst ?r) = RPC_ERROR"
    and f2: "map w_in_use (s_wait (snd ?r)) = (map w_in_use (s_wait st2))[i := False]"
    by simp_all
  have "map w_in_use (s_wait (snd ?r)) = (map w_in_use (s_wait st))[i := w_in_use (s_wait st ! i)]"
    using f2 fl f1 nu by simp
  then have flags: "map w_in_use (s_wait (snd ?r)) = map w_in_use (s_wait st)"
    by (metis list_update_id map_update)
  have avail: "fst (alloc_attempt (snd ?r)) \<noteq> None" if len: "length (s_wait st) = REQ_TABLE_SIZE"
  proof -
    have l2: "length (s_wait (snd ?r)) = length (s_wait st)"
      using flags by (metis length_map)
    have "w_in_use (s_wait (snd ?r) ! i) = w_in_use (s_wait st ! i)"
      using flags l2 ib len by (metis nth_map)
    with nu have "\<not> w_in_use (s_wait (snd ?r) ! i)" by simp
    from scan_free_finds [of 0 i REQ_TABLE_SIZE "s_wait (snd ?r)"] ib this
    obtain k where "scan_free (s_wait (snd ?r)) 0 REQ_TABLE_SIZE = Some k" by auto
    then show ?thesis by (simp add: alloc_attempt_def Let_def)
  qed
  from rc flags avail show ?thesis by (simp add: rpc_request_def)
qed

theorem request_timeout_result_witness:
  "rr_wait (fst (rpc_request rpc_trans_init (Some ex_ping) None 0
                   (Some (replicate 64 0)) (Some 64) 1000 [])) = Some (1000, False)
   \<and> length (s_wait rpc_trans_init) = REQ_TABLE_SIZE
   \<and> rr_rc (fst (rpc_request rpc_trans_init (Some ex_ping) None 0
                   (Some (replicate 64 0)) (Some 64) 1000 [])) = RPC_ERROR
   \<and> map w_in_use (s_wait (snd (rpc_request rpc_trans_init (Some ex_ping) None 0
                   (Some (replicate 64 0)) (Some 64) 1000 [])))
       = map w_in_use (s_wait rpc_trans_init)
   \<and> fst (alloc_attempt (snd (rpc_request rpc_trans_init (Some ex_ping) None 0
                   (Some (replicate 64 0)) (Some 64) 1000 []))) \<noteq> None"
proof -
  have h1: "rr_wait (fst (rpc_request rpc_trans_init (Some ex_ping) None 0
                   (Some (replicate 64 0)) (Some 64) 1000 [])) = Some (1000, False)"
    by code_simp
  have h2: "length (s_wait rpc_trans_init) = REQ_TABLE_SIZE" by code_simp
  from request_timeout_result [OF h1] h1 h2 show ?thesis by blast
qed

text \<open>
  Claim C6 as stated fails: a request for \<open>ping\<close> on the initial state, with no response
  arriving, waits 1000 ms and returns a code that is not RPC_ERROR_TIMEOUT.
\<close>

theorem request_timeout_counterexample:
  "rr_wait (fst (rpc_request rpc_trans_init (Some [0x70, 0x69, 0x6E, 0x67]) None 0
         (Some (replicate 64 0)) (Some 64) 1000 [])) = Some (1000, False)
   \<and> rr_rc (fst (rpc_request rpc_trans_init (Some [0x70, 0x69, 0x6E, 0x67]) None 0
         (Some (replicate 64 0)) (Some 64) 1000 [])) \<noteq> RPC_ERROR_TIMEOUT"
  by code_simp

text \<open>
  Claim C7, as the code has it. Whenever \<open>rpc_request\<close> reaches the wait, the duration it
  passes to \<open>os_sem_take\<close> is \<open>timeout_ms\<close> itself when that is not 0, and
  REQ_TIMEOUT_MS_DEFAULT when it is 0.
\<close>

theorem request_wait_duration:
  assumes "rr_wait (fst (rpc_request st name args args_len resp_buf resp_len timeout_ms incoming))
             = Some (d, taken)"
  shows "d = (if timeout_ms = 0 then REQ_TIMEOUT_MS_DEFAULT else timeout_ms)"
  using assms
  by (auto simp: rpc_request_def rpc_trans_request_def Let_def rr_wait_wait
      split: option.splits if_splits prod.splits)

theorem request_wait_duration_witness:
  "rr_wait (fst (rpc_request rpc_trans_init (Some [0x70, 0x69, 0x6E, 0x67]) None 0
         (Some (replicate 64 0)) (Some 64) 0 [])) = Some (200, False)
   \<and> (200 :: u32) = (if (0 :: u32) = 0 then REQ_TIMEOUT_MS_DEFAULT else 0)"
proof -
  have h: "rr_wait (fst (rpc_request rpc_trans_init (Some [0x70, 0x69, 0x6E, 0x67]) None 0
         (Some (replicate 64 0)) (Some 64) 0 [])) = Some (200, False)"
    by code_simp
  from request_wait_duration [OF h] h show ?thesis by simp
qed

text \<open>Claim C7 as stated fails: a timeout of 100 ms is passed on as 100, not as the maximum
  of 100 and the default.\<close>

theorem request_wait_duration_counterexample:
  "rr_wait (fst (rpc_request rpc_trans_init (Some [0x70, 0x69, 0x6E, 0x67]) None 0
         (Some (replicate 64 0)) (Some 64) 100 [])) = Some (100, False)
   \<and> (100 :: u32) \<noteq> max 100 REQ_TIMEOUT_MS_DEFAULT"
  by code_simp

text \<open>
  Claim C9, as the code has it. A request with a name of valid length, non-null \<open>resp_buf\<close>
  and \<open>resp_len\<close>, and \<open>*resp_len\<close> below MAX_FUNC_ARGS_RESP_SIZE returns the generic code
  RPC_ERROR before anything else happens: the transport state (waiter table, counter, queues)
  and the caller's buffers are unchanged and no wait takes place.
\<close>

theorem request_small_capacity:
  assumes "MIN_FUNC_NAME_LEN \<le> strlen nm" and "strlen nm \<le> MAX_FUNC_NAME_LEN"
    and "unat rl < MAX_FUNC_ARGS_RESP_SIZE"
  shows "rpc_request st (Some nm) args args_len (Some rb) (Some rl) timeout_ms incoming =
           (\<lparr> rr_rc = RPC_ERROR, rr_resp_buf = Some rb, rr_resp_len = Some rl,
               rr_wait = None \<rparr>, st)"
  using assms by (simp add: rpc_request_def rpc_trans_request_def Let_def)

theorem request_small_capacity_witness:
  "MIN_FUNC_NAME_LEN \<le> strlen [0x70, 0x69, 0x6E, 0x67]
   \<and> strlen [0x70, 0x69, 0x6E, 0x67] \<le> MAX_FUNC_NAME_LEN
   \<and> unat (10 :: u16) < MAX_FUNC_ARGS_RESP_SIZE
   \<and> rpc_request rpc_trans_init (Some [0x70, 0x69, 0x6E, 0x67]) None 0
         (Some (replicate 10 0)) (Some 10) 500 [] =
       (\<lparr> rr_rc = RPC_ERROR, rr_resp_buf = Some (replicate 10 0), rr_resp_len = Some 10,
           rr_wait = None \<rparr>, rpc_trans_init)"
proof -
  have h1: "MIN_FUNC_NAME_LEN \<le> strlen [0x70, 0x69, 0x6E, 0x67]"
    by (simp add: strlen_def MIN_FUNC_NAME_LEN_def)
  have h2: "strlen [0x70, 0x69, 0x6E, 0x67] \<le> MAX_FUNC_NAME_LEN"
    by (simp add: strlen_def MAX_FUNC_NAME_LEN_def)
  have h3: "unat (10 :: u16) < MAX_FUNC_ARGS_RESP_SIZE"
    by (simp add: MAX_FUNC_ARGS_RESP_SIZE_def)
  from request_small_capacity [OF h1 h2 h3] h1 h2 h3 show ?thesis by blast
qed

text \<open>Claim C9 as stated fails: with \<open>*resp_len = 10\<close> the return code is not
  RPC_ERROR_INVALID_ARGS.\<close>

theorem request_small_capacity_counterexample:
  "rr_rc (fst (rpc_request rpc_trans_init (Some [0x70, 0x69, 0x6E, 0x67]) None 0
         (Some (replicate 10 0)) (Some 10) 500 [])) \<noteq> RPC_ERROR_INVALID_ARGS"
  by code_simp

section \<open>Registration\<close>

text \<open>
  Claim C8, as the code has it. \<open>register_fn\<close> looks at the capacity only: it succeeds
  exactly when fewer than NUM_REG_FUNC entries are registered, and then appends the new entry
  whether or not the name is already present; when the table is full it returns RPC_ERROR
  and leaves the registry unchanged.
\<close>

theorem register_fn_capacity_only:
  assumes "length (s_reg R) = NUM_REG_FUNC"
  shows "(fst (register_fn R name fn) = RPC_SUCCESS \<longleftrightarrow> s_reg_count R < NUM_REG_FUNC)
         \<and> (s_reg_count R < NUM_REG_FUNC \<longrightarrow>
              reg_entries (snd (register_fn R name fn)) =
                reg_entries R @ [Some \<lparr> reg_name = name, reg_fn = fn \<rparr>])
         \<and> (\<not> s_reg_count R < NUM_REG_FUNC \<longrightarrow>
              register_fn R name fn = (RPC_ERROR, R))"
  using assms
  by (auto simp: register_fn_def reg_entries_def RPC_SUCCESS_def RPC_ERROR_def
      take_Suc_conv_app_nth)

theorem register_fn_capacity_only_witness:
  "length (s_reg reg_ping) = NUM_REG_FUNC \<and> s_reg_count reg_ping < NUM_REG_FUNC
   \<and> fst (register_fn reg_ping [0x61] 3) = RPC_SUCCESS
   \<and> reg_entries (snd (register_fn reg_ping [0x61] 3)) =
        reg_entries reg_ping @ [Some \<lparr> reg_name = [0x61], reg_fn = 3 \<rparr>]
   \<and> length (s_reg reg_full) = NUM_REG_FUNC \<and> \<not> s_reg_count reg_full < NUM_REG_FUNC
   \<and> register_fn reg_full [0x61] 3 = (RPC_ERROR, reg_full)"
proof -
  have h1: "length (s_reg reg_ping) = NUM_REG_FUNC" by code_simp
  have h2: "s_reg_count reg_ping < NUM_REG_FUNC" by code_simp
  have g1: "length (s_reg reg_full) = NUM_REG_FUNC" by code_simp
  have g2: "\<not> s_reg_count reg_full < NUM_REG_FUNC" by code_simp
  from register_fn_capacity_only [OF h1, of "[0x61]" 3]
    register_fn_capacity_only [OF g1, of "[0x61]" 3] h1 h2 g1 g2
  show ?thesis by blast
qed

text \<open>Claim C8 as stated fails: registering \<open>ping\<close> a second time succeeds and appends a
  second entry of that name.\<close>

theorem register_fn_duplicate_counterexample:
  "find_reg reg_ping [0x70, 0x69, 0x6E, 0x67] = 0
   \<and> fst (register_fn reg_ping [0x70, 0x69, 0x6E, 0x67] 2) = RPC_SUCCESS
   \<and> reg_entries (snd (register_fn reg_ping [0x70, 0x69, 0x6E, 0x67] 2)) =
       [Some \<lparr> reg_name = [0x70, 0x69, 0x6E, 0x67], reg_fn = 1 \<rparr>,
        Some \<lparr> reg_name = [0x70, 0x69, 0x6E, 0x67], reg_fn = 2 \<rparr>]"
  by code_simp

section \<open>A NULL argument pointer with a positive length\<close>

lemma build_null_bytes:
  assumes "valid_msg_type type"
    and "MIN_FUNC_NAME_LEN \<le> strlen nm" and "strlen nm \<le> MAX_FUNC_NAME_LEN"
    and "unat alen \<le> MAX_FUNC_ARGS_RESP_SIZE"
    and "2 + strlen nm + 1 + unat alen \<le> olen" and "olen \<le> length buf"
  shows "rpc_trans_build_msg type seq (Some nm) None alen (Some buf) olen =
           (2 + strlen nm + 1,
            Some ([type, seq] @ cstr nm @ [0] @ drop (2 + strlen nm + 1) buf))"
proof -
  have len: "2 \<le> length buf" using assms(5,6) by simp
  obtain b0 b1 rest where buf: "buf = b0 # b1 # rest"
    using len by (cases buf; cases "tl buf") auto
  have lr: "strlen nm + 1 \<le> length rest"
    using assms(5,6) buf by simp
  have u1: "(drop (strlen nm) rest)[0 := 0] = 0 # drop (Suc (strlen nm)) rest"
    using lr by (simp add: upd_drop)
  have l2: "length (cstr nm) = strlen nm" by (simp add: strlen_cstr)
  show ?thesis
    using assms(1,2,3,4,5,6) lr
    by (auto simp: rpc_trans_build_msg_def Let_def buf memcpy_at_def size_defs u1 take_strlen l2
        list_update_append nth_append add.commute)
qed

lemma parse_null_bytes:
  assumes "valid_msg_type type"
    and "MIN_FUNC_NAME_LEN \<le> strlen nm" and "strlen nm \<le> MAX_FUNC_NAME_LEN"
  shows "rpc_trans_parse_msg (Some ([type, seq] @ cstr nm @ [0] @ rest)) (2 + strlen nm + 1) =
           Some \<lparr> msg_type = type, msg_seq = seq, msg_name = cstr nm, msg_args = [],
                   msg_alen = 0 \<rparr>"
  using parse_bytes [of type "cstr nm" "[]" seq rest] assms
  by (simp add: strlen_cstr cstr_no_nul)

lemma build_null_callers:
  assumes "valid_msg_type type"
    and "MIN_FUNC_NAME_LEN \<le> strlen nm" and "strlen nm \<le> MAX_FUNC_NAME_LEN"
    and "unat alen \<le> MAX_FUNC_ARGS_RESP_SIZE"
  shows "rpc_trans_build_msg type seq (Some nm) None alen
           (Some (replicate MAX_PAYLOAD_SIZE 0)) MAX_PAYLOAD_SIZE =
           (2 + strlen nm + 1,
            Some ([type, seq] @ cstr nm @ [0]
                  @ drop (2 + strlen nm + 1) (replicate MAX_PAYLOAD_SIZE 0)))"
proof -
  have "2 + strlen nm + 1 + unat alen \<le> MAX_PAYLOAD_SIZE"
    using assms(3,4) by (simp add: size_defs)
  from build_null_bytes [OF assms this, of "replicate MAX_PAYLOAD_SIZE 0" seq]
  show ?thesis by simp
qed

lemma alloc_attempt_free_slot:
  assumes "scan_free (s_wait st) 0 REQ_TABLE_SIZE = Some i"
  shows "\<exists>st'. alloc_attempt st = (Some (i, s_next_seq st), st')
               \<and> qTransToLink st' = qTransToLink st"
  using assms by (simp add: alloc_attempt_def Let_def)

lemma alloc_loop_first:
  "alloc_attempt st = (Some r, st') \<Longrightarrow> 0 < n \<Longrightarrow> alloc_loop n st = (Some r, st')"
  by (cases n) simp_all

lemma alloc_waiter_free_slot:
  assumes "scan_free (s_wait st) 0 REQ_TABLE_SIZE = Some i"
  shows "\<exists>st'. rpc_trans_alloc_waiter st = (Some (i, s_next_seq st), st')
               \<and> qTransToLink st' = qTransToLink st"
proof -
  from alloc_attempt_free_slot [OF assms] obtain st'
    where a: "alloc_attempt st = (Some (i, s_next_seq st), st')"
      and q: "qTransToLink st' = qTransToLink st" by blast
  have "alloc_loop 255 st = (Some (i, s_next_seq st), st')"
    using a by (rule alloc_loop_first) simp
  then show ?thesis using q by (simp add: rpc_trans_alloc_waiter_def)
qed

lemma stream_null_args:
  assumes "MIN_FUNC_NAME_LEN \<le> strlen nm" and "strlen nm \<le> MAX_FUNC_NAME_LEN"
    and "unat alen \<le> MAX_FUNC_ARGS_RESP_SIZE"
    and "length (q_items (qTransToLink st)) \<noteq> q_capacity (qTransToLink st)"
  shows "\<exists>lp. rpc_trans_stream st (Some nm) None alen =
                (RPC_SUCCESS,
                 st\<lparr> qTransToLink := (qTransToLink st)
                        \<lparr> q_items := q_items (qTransToLink st) @ [lp] \<rparr> \<rparr>)
              \<and> rpc_trans_parse_msg (Some (lp_payload lp)) (lp_payload_len lp) =
                  Some \<lparr> msg_type = MSG_STREAM, msg_seq = 0, msg_name = cstr nm,
                          msg_args = [], msg_alen = 0 \<rparr>"
proof -
  let ?lp = "\<lparr> lp_payload = [MSG_STREAM, 0] @ cstr nm @ [0]
                  @ drop (2 + strlen nm + 1) (replicate MAX_PAYLOAD_SIZE 0),
                lp_payload_len = 2 + strlen nm + 1 \<rparr>"
  have run: "rpc_trans_stream st (Some nm) None alen =
                (RPC_SUCCESS,
                 st\<lparr> qTransToLink := (qTransToLink st)
                        \<lparr> q_items := q_items (qTransToLink st) @ [?lp] \<rparr> \<rparr>)"
    using assms(1,2,4)
    by (simp add: rpc_trans_stream_def Let_def build_null_callers [OF _ assms(1,2,3)]
        os_queue_send_def)
  have prs: "rpc_trans_parse_msg (Some (lp_payload ?lp)) (lp_payload_len ?lp) =
                  Some \<lparr> msg_type = MSG_STREAM, msg_seq = 0, msg_name = cstr nm,
                          msg_args = [], msg_alen = 0 \<rparr>"
    using parse_null_bytes [of MSG_STREAM nm 0, OF _ assms(1,2)] by simp
  from run prs show ?thesis by blast
qed

lemma request_null_args:
  assumes "MIN_FUNC_NAME_LEN \<le> strlen nm" and "strlen nm \<le> MAX_FUNC_NAME_LEN"
    and "unat alen \<le> MAX_FUNC_ARGS_RESP_SIZE"
    and "length (q_items (qTransToLink st)) \<noteq> q_capacity (qTransToLink st)"
    and "MAX_FUNC_ARGS_RESP_SIZE \<le> unat rl"
    and "scan_free (s_wait st) 0 REQ_TABLE_SIZE = Some i"
  shows "\<exists>lp. rr_wait (fst (rpc_trans_request st (Some nm) None alen (Some rb) (Some rl) t inc))
                 \<noteq> None
              \<and> q_items (qTransToLink
                    (snd (rpc_trans_request st (Some nm) None alen (Some rb) (Some rl) t inc)))
                  = q_items (qTransToLink st) @ [lp]
              \<and> rpc_trans_parse_msg (Some (lp_payload lp)) (lp_payload_len lp) =
                  Some \<lparr> msg_type = MSG_REQ, msg_seq = s_next_seq st, msg_name = cstr nm,
                          msg_args = [], msg_alen = 0 \<rparr>"
proof -
  from alloc_waiter_free_slot [OF assms(6)] obtain st1
    where a: "rpc_trans_alloc_waiter st = (Some (i, s_next_seq st), st1)"
      and q: "qTransToLink st1 = qTransToLink st" by blast
  let ?lp = "\<lparr> lp_payload = [MSG_REQ, s_next_seq st] @ cstr nm @ [0]
                  @ drop (2 + strlen nm + 1) (replicate MAX_PAYLOAD_SIZE 0),
                lp_payload_len = 2 + strlen nm + 1 \<rparr>"
  let ?r = "rpc_trans_request st (Some nm) None alen (Some rb) (Some rl) t inc"
  have run: "rr_wait (fst ?r) \<noteq> None
             \<and> q_items (qTransToLink (snd ?r)) = q_items (qTransToLink st) @ [?lp]"
    using assms(1,2,4,5)
    by (simp add: rpc_trans_request_def Let_def a q build_null_callers [OF _ assms(1,2,3)]
        os_queue_send_def rr_wait_wait)
  have prs: "rpc_trans_parse_msg (Some (lp_payload ?lp)) (lp_payload_len ?lp) =
                  Some \<lparr> msg_type = MSG_REQ, msg_seq = s_next_seq st, msg_name = cstr nm,
                          msg_args = [], msg_alen = 0 \<rparr>"
    using parse_null_bytes [of MSG_REQ nm "s_next_seq st", OF _ assms(1,2)] by simp
  from run prs show ?thesis by blast
qed

text \<open>
  Claim C10, as the code has it. For a valid type, any sequence and a name of valid length,
  with a NULL argument pointer and a positive \<open>alen\<close> of at most MAX_FUNC_ARGS_RESP_SIZE,
  \<open>rpc_trans_build_msg\<close> returns \<open>2 + name_len + 1\<close> and writes no argument bytes, and the
  payload parses with zero-length arguments. \<open>rpc_stream\<close> then returns RPC_SUCCESS and
  \<open>rpc_request\<close> reaches its wait (given room in the queue and, for the request, a free
  waiter and a full-capacity response buffer), each having queued such a payload.
\<close>

theorem null_args_positive_length:
  assumes "valid_msg_type type"
    and "MIN_FUNC_NAME_LEN \<le> strlen nm" and "strlen nm \<le> MAX_FUNC_NAME_LEN"
    and "0 < alen" and "unat alen \<le> MAX_FUNC_ARGS_RESP_SIZE"
    and "2 + strlen nm + 1 + unat alen \<le> olen" and "olen \<le> length buf"
  shows "(\<exists>out. rpc_trans_build_msg type seq (Some nm) None alen (Some buf) olen
                  = (2 + strlen nm + 1, Some out)
               \<and> rpc_trans_parse_msg (Some out) (2 + strlen nm + 1) =
                   Some \<lparr> msg_type = type, msg_seq = seq, msg_name = cstr nm, msg_args = [],
                           msg_alen = 0 \<rparr>)
       \<and> (length (q_items (qTransToLink st)) \<noteq> q_capacity (qTransToLink st) \<longrightarrow>
            (\<exists>lp. rpc_stream st (Some nm) None alen =
                     (RPC_SUCCESS,
                      st\<lparr> qTransToLink := (qTransToLink st)
                             \<lparr> q_items := q_items (qTransToLink st) @ [lp] \<rparr> \<rparr>)
                 \<and> rpc_trans_parse_msg (Some (lp_payload lp)) (lp_payload_len lp) =
                     Some \<lparr> msg_type = MSG_STREAM, msg_seq = 0, msg_name = cstr nm,
                             msg_args = [], msg_alen = 0 \<rparr>))
       \<and> (length (q_items (qTransToLink st)) \<noteq> q_capacity (qTransToLink st)
            \<and> MAX_FUNC_ARGS_RESP_SIZE \<le> unat rl
            \<and> scan_free (s_wait st) 0 REQ_TABLE_SIZE = Some i \<longrightarrow>
            (\<exists>lp. rr_wait (fst (rpc_request st (Some nm) None alen (Some rb) (Some rl) t inc))
                     \<noteq> None
                 \<and> q_items (qTransToLink
                       (snd (rpc_request st (Some nm) None alen (Some rb) (Some rl) t inc)))
                     = q_items (qTransToLink st) @ [lp]
                 \<and> rpc_trans_parse_msg (Some (lp_payload lp)) (lp_payload_len lp) =
                     Some \<lparr> msg_type = MSG_REQ, msg_seq = s_next_seq st, msg_name = cstr nm,
                             msg_args = [], msg_alen = 0 \<rparr>))"
proof -
  have b: "rpc_trans_build_msg type seq (Some nm) None alen (Some buf) olen =
             (2 + strlen nm + 1,
              Some ([type, seq] @ cstr nm @ [0] @ drop (2 + strlen nm + 1) buf))"
    by (rule build_null_bytes [OF assms(1,2,3,5,6,7)])
  have p: "rpc_trans_parse_msg
             (Some ([type, seq] @ cstr nm @ [0] @ drop (2 + strlen nm + 1) buf))
             (2 + strlen nm + 1) =
           Some \<lparr> msg_type = type, msg_seq = seq, msg_name = cstr nm, msg_args = [],
                   msg_alen = 0 \<rparr>"
    by (rule parse_null_bytes [OF assms(1,2,3)])
  from b p have first: "\<exists>out. rpc_trans_build_msg type seq (Some nm) None alen (Some buf) olen
                  = (2 + strlen nm + 1, Some out)
               \<and> rpc_trans_parse_msg (Some out) (2 + strlen nm + 1) =
                   Some \<lparr> msg_type = type, msg_seq = seq, msg_name = cstr nm, msg_args = [],
                           msg_alen = 0 \<rparr>" by blast
  show ?thesis
    using first stream_null_args [OF assms(2,3,5), of st]
      request_null_args [OF assms(2,3,5), of st rl i rb t inc]
    unfolding rpc_stream_def rpc_request_def by blast
qed

theorem null_args_positive_length_witness:
  "valid_msg_type MSG_STREAM \<and> MIN_FUNC_NAME_LEN \<le> strlen ex_ping
   \<and> strlen ex_ping \<le> MAX_FUNC_NAME_LEN \<and> (0 :: u16) < 8
   \<and> unat (8 :: u16) \<le> MAX_FUNC_ARGS_RESP_SIZE
   \<and> 2 + strlen ex_ping + 1 + unat (8 :: u16) \<le> MAX_PAYLOAD_SIZE
   \<and> length (q_items (qTransToLink rpc_trans_init)) \<noteq> q_capacity (qTransToLink rpc_trans_init)
   \<and> MAX_FUNC_ARGS_RESP_SIZE \<le> unat (64 :: u16)
   \<and> scan_free (s_wait rpc_trans_init) 0 REQ_TABLE_SIZE = Some 0
   \<and> fst (rpc_trans_build_msg MSG_STREAM 0 (Some ex_ping) None 8
            (Some (replicate MAX_PAYLOAD_SIZE 0)) MAX_PAYLOAD_SIZE) = 2 + strlen ex_ping + 1
   \<and> fst (rpc_stream rpc_trans_init (Some ex_ping) None 8) = RPC_SUCCESS
   \<and> rr_wait (fst (rpc_request rpc_trans_init (Some ex_ping) None 8
                       (Some (replicate 64 0)) (Some 64) 0 [])) \<noteq> None"
proof -
  have h1: "valid_msg_type MSG_STREAM" by code_simp
  have h2: "MIN_FUNC_NAME_LEN \<le> strlen ex_ping" by code_simp
  have h3: "strlen ex_ping \<le> MAX_FUNC_NAME_LEN" by code_simp
  have h4: "(0 :: u16) < 8" by simp
  have h5: "unat (8 :: u16) \<le> MAX_FUNC_ARGS_RESP_SIZE" by code_simp
  have h6: "2 + strlen ex_ping + 1 + unat (8 :: u16) \<le> MAX_PAYLOAD_SIZE" by code_simp
  have h7: "MAX_PAYLOAD_SIZE \<le> length (replicate MAX_PAYLOAD_SIZE (0 :: u8))" by simp
  have h8: "length (q_items (qTransToLink rpc_trans_init))
              \<noteq> q_capacity (qTransToLink rpc_trans_init)" by code_simp
  have h9: "MAX_FUNC_ARGS_RESP_SIZE \<le> unat (64 :: u16)" by code_simp
  have h10: "scan_free (s_wait rpc_trans_init) 0 REQ_TABLE_SIZE = Some 0" by code_simp
  from null_args_positive_length [OF h1 h2 h3 h4 h5 h6 h7,
      of 0 rpc_trans_init 64 0 "replicate 64 0" 0 "[]"] h8 h9 h10
  have "fst (rpc_trans_build_msg MSG_STREAM 0 (Some ex_ping) None 8
            (Some (replicate MAX_PAYLOAD_SIZE 0)) MAX_PAYLOAD_SIZE) = 2 + strlen ex_ping + 1
   \<and> fst (rpc_stream rpc_trans_init (Some ex_ping) None 8) = RPC_SUCCESS
   \<and> rr_wait (fst (rpc_request rpc_trans_init (Some ex_ping) None 8
                       (Some (replicate 64 0)) (Some 64) 0 [])) \<noteq> None"
    by auto
  with h1 h2 h3 h4 h5 h6 h8 h9 h10 show ?thesis by blast
qed

text \<open>
  Claim C10 as stated fails: with a name of one character and \<open>alen = 65\<close> the total 69 is
  within the payload bounds, yet the build fails (returns 0), since \<open>alen\<close> exceeds
  MAX_FUNC_ARGS_RESP_SIZE.
\<close>

theorem null_args_positive_length_counterexample:
  "MIN_PAYLOAD_SIZE \<le> 2 + strlen [0x61] + 1 + unat (65 :: u16)
   \<and> 2 + strlen [0x61] + 1 + unat (65 :: u16) \<le> MAX_PAYLOAD_SIZE
   \<and> fst (rpc_trans_build_msg MSG_REQ 1 (Some [0x61]) None 65
             (Some (replicate MAX_PAYLOAD_SIZE 0)) MAX_PAYLOAD_SIZE) = 0
   \<and> 2 + strlen [0x61] + 1 \<noteq> 0"
  by code_simp

end
